theory Spec2Isabelle
  imports Main
begin

section \<open>Data model\<close>

text \<open>
  The structures of \<^verbatim>\<open>golang.org/x/mod\<close> that \<^verbatim>\<open>main.go\<close> reads and writes, with the
  fields it touches. A \<^verbatim>\<open>module.Version\<close> is a path and a version string.
\<close>

record module_Version =
  Path :: string
  Version :: string

text \<open>
  The parsed semantic version of \<^verbatim>\<open>github.com/Masterminds/semver\<close>; \<^verbatim>\<open>Prerelease()\<close>
  returns its \<^verbatim>\<open>pre\<close> field.
\<close>

record semver_Version =
  major :: nat
  minor :: nat
  patch :: nat
  pre :: string
  metadata :: string

definition Prerelease :: "semver_Version \<Rightarrow> string" where
  "Prerelease v = pre v"

record Exclude =
  Mod :: module_Version

record Replace =
  Old :: module_Version
  New :: module_Version

record Require =
  Mod :: module_Version
  Indirect :: bool

text \<open>
  \<^verbatim>\<open>modfile.File\<close>. \<^verbatim>\<open>Module\<close> is a pointer in the source and is nil for a manifest
  with no module line, hence the option.
\<close>

record File =
  Module :: "module_Version option"
  Require :: "Require list"
  Replace :: "Replace list"
  Exclude :: "Exclude list"

text \<open>
  What the three passes can return: the panic of \<^verbatim>\<open>src.Module.Mod.Path\<close> on a nil
  \<^verbatim>\<open>Module\<close>, the error of \<^verbatim>\<open>semver.NewVersion\<close>, the \<^verbatim>\<open>fmt.Errorf\<close> of line 117 with
  the two coordinates it prints, and the \<^verbatim>\<open>errors.New\<close> of line 172.
\<close>

datatype error =
  NilModule
  | InvalidSemVer
  | CannotReconcile module_Version module_Version
  | ReplaceMismatch

section \<open>The collaborators\<close>

text \<open>
  Modelled from the spec: \<^verbatim>\<open>module.Version.String()\<close> of \<^verbatim>\<open>golang.org/x/mod/module\<close> is
  not under src/. Section 3 says that two coordinates are equal iff both fields match
  exactly, so the comparison of two renderings
  \<^verbatim>\<open>a.String() == b.String()\<close> is modelled as the equality of both fields.
\<close>

definition String_eq :: "module_Version \<Rightarrow> module_Version \<Rightarrow> bool" where
  "String_eq a b = (Path a = Path b \<and> Version a = Version b)"

text \<open>
  Modelled from the spec: \<^verbatim>\<open>File.DropRequire\<close> of \<^verbatim>\<open>golang.org/x/mod/modfile\<close> is not
  under src/. Section 6: remove a require entry by path (no-op if absent). Every entry
  with the path goes.
\<close>

definition DropRequire :: "string \<Rightarrow> File \<Rightarrow> File" where
  "DropRequire path f = f\<lparr>Require := filter (\<lambda>r. Path (Mod r) \<noteq> path) (Require f)\<rparr>"

text \<open>
  Modelled from the spec: \<^verbatim>\<open>File.AddNewRequire\<close> of \<^verbatim>\<open>golang.org/x/mod/modfile\<close> is not
  under src/. Section 4.1, step 2, on this call: append a new requirement with the
  source entry's path, version, and indirect flag. (Section 6 also lists an
  add-or-update operation among the collaborator's; the call of line 134 is to the
  one that adds a new entry.)
\<close>

definition AddNewRequire :: "string \<Rightarrow> string \<Rightarrow> bool \<Rightarrow> File \<Rightarrow> File" where
  "AddNewRequire path vers indirect f =
     f\<lparr>Require := Require f @ [\<lparr>Mod = \<lparr>Path = path, Version = vers\<rparr>, Indirect = indirect\<rparr>]\<rparr>"

text \<open>
  Modelled from the spec: \<^verbatim>\<open>File.DropReplace\<close> of \<^verbatim>\<open>golang.org/x/mod/modfile\<close> is not
  under src/. Section 6: remove a replace directive by old coordinate. Every directive
  with the coordinate goes.
\<close>

definition DropReplace :: "string \<Rightarrow> string \<Rightarrow> File \<Rightarrow> File" where
  "DropReplace oldPath oldVers f =
     f\<lparr>Replace := filter (\<lambda>r. \<not> (Path (Old r) = oldPath \<and> Version (Old r) = oldVers)) (Replace f)\<rparr>"

text \<open>
  Modelled from the spec: \<^verbatim>\<open>File.AddReplace\<close> of \<^verbatim>\<open>golang.org/x/mod/modfile\<close> is not
  under src/. Section 4.2, step 2, on this call: append the source directive as a
  new replace directive.
\<close>

definition AddReplace :: "string \<Rightarrow> string \<Rightarrow> string \<Rightarrow> string \<Rightarrow> File \<Rightarrow> File" where
  "AddReplace oldPath oldVers newPath newVers f =
     f\<lparr>Replace := Replace f @
        [\<lparr>Old = \<lparr>Path = oldPath, Version = oldVers\<rparr>, New = \<lparr>Path = newPath, Version = newVers\<rparr>\<rparr>]\<rparr>"

text \<open>
  Modelled from the spec: \<^verbatim>\<open>File.AddExclude\<close> of \<^verbatim>\<open>golang.org/x/mod/modfile\<close> is not
  under src/. Section 4.3, on this call: append the source exclusion.
\<close>

definition AddExclude :: "string \<Rightarrow> string \<Rightarrow> File \<Rightarrow> File" where
  "AddExclude path vers f =
     f\<lparr>Exclude := Exclude f @ [\<lparr>Exclude.Mod = \<lparr>Path = path, Version = vers\<rparr>\<rparr>]\<rparr>"

text \<open>
  Modelled from the spec: the semantic-version primitive
  (\<^verbatim>\<open>github.com/Masterminds/semver\<close>) is not under src/. Section 1: it parses a version
  string, tells whether one version is less than another, and exposes the pre-release
  tag. The passes below take the primitive as a parameter and the theorems hold for
  every primitive; \<open>semver_NewVersion\<close> and \<open>semver_LessThan\<close> are an instance on
  which the examples are evaluated. It reads \<^verbatim>\<open>vMAJOR.MINOR.PATCH\<close> with an optional
  \<^verbatim>\<open>-PRERELEASE\<close>, orders by the three numbers, and puts a version with a pre-release
  tag below the same numbers without one.
\<close>

definition digitVal :: "char \<Rightarrow> nat option" where
  "digitVal c =
     (let n = (of_char c :: nat) in if 48 \<le> n \<and> n \<le> 57 then Some (n - 48) else None)"

fun parseDigits :: "nat \<Rightarrow> string \<Rightarrow> nat option" where
  "parseDigits acc [] = Some acc"
| "parseDigits acc (c # cs) =
     (case digitVal c of None \<Rightarrow> None | Some d \<Rightarrow> parseDigits (10 * acc + d) cs)"

definition parseNumber :: "string \<Rightarrow> nat option" where
  "parseNumber s = (if s = [] then None else parseDigits 0 s)"

fun splitDots :: "string \<Rightarrow> string list" where
  "splitDots [] = [[]]"
| "splitDots (c # cs) =
     (if c = CHR ''.'' then [] # splitDots cs
      else (case splitDots cs of [] \<Rightarrow> [[c]] | w # ws \<Rightarrow> (c # w) # ws))"

definition semver_NewVersion :: "string \<Rightarrow> semver_Version option" where
  "semver_NewVersion s =
     (let body = (case s of [] \<Rightarrow> [] | c # t \<Rightarrow> if c = CHR ''v'' then t else s);
          core = takeWhile (\<lambda>c. c \<noteq> CHR ''-'') body;
          rest = dropWhile (\<lambda>c. c \<noteq> CHR ''-'') body
      in
      if rest = ''-'' then None
      else
        (case map parseNumber (splitDots core) of
           [Some a, Some b, Some c] \<Rightarrow>
             Some \<lparr>major = a, minor = b, patch = c, pre = tl rest, metadata = []\<rparr>
         | _ \<Rightarrow> None))"

definition semver_LessThan :: "semver_Version \<Rightarrow> semver_Version \<Rightarrow> bool" where
  "semver_LessThan a b =
     (major a < major b \<or>
      (major a = major b \<and>
        (minor a < minor b \<or>
         (minor a = minor b \<and>
           (patch a < patch b \<or> (patch a = patch b \<and> pre a \<noteq> [] \<and> pre b = []))))))"

section \<open>The version-comparability predicate\<close>

definition canCompare :: "semver_Version \<Rightarrow> semver_Version \<Rightarrow> bool" where
  "canCompare a b =
     ((Prerelease a = [] \<and> Prerelease b = []) \<or> (Prerelease a \<noteq> [] \<and> Prerelease b \<noteq> []))"

section \<open>The requirement merge\<close>

text \<open>
  The semantic-version primitive is a parameter of the pass: \<open>nv\<close> is
  \<^verbatim>\<open>semver.NewVersion\<close> (\<open>None\<close> when it returns an error) and \<open>lt a b\<close> is
  \<^verbatim>\<open>a.LessThan(b)\<close>.

  \<open>samePath\<close> is the body of \<^verbatim>\<open>if srcR.Mod.Path == destR.Mod.Path\<close> (lines 103 to 128):
  it returns the error of an early return, or the destination entry as the body
  leaves it.
\<close>

definition samePath ::
  "(string \<Rightarrow> semver_Version option) \<Rightarrow> (semver_Version \<Rightarrow> semver_Version \<Rightarrow> bool) \<Rightarrow>
   bool \<Rightarrow> Require \<Rightarrow> Require \<Rightarrow> error + Require" where
  "samePath nv lt forceOverwrite srcR destR =
     (let indirect = (\<lambda>d. if Indirect d \<noteq> (\<not> Indirect srcR) then d\<lparr>Indirect := Indirect srcR\<rparr> else d)
      in
      if Version (Mod srcR) \<noteq> Version (Mod destR) then
        (case nv (Version (Mod destR)) of
           None \<Rightarrow> Inl InvalidSemVer
         | Some destVersion \<Rightarrow>
            (case nv (Version (Mod srcR)) of
               None \<Rightarrow> Inl InvalidSemVer
             | Some srcVersion \<Rightarrow>
                if forceOverwrite then
                  Inr (indirect (destR\<lparr>Mod := (Mod destR)\<lparr>Version := Version (Mod srcR)\<rparr>\<rparr>))
                else if \<not> canCompare destVersion srcVersion then
                  Inl (CannotReconcile (Mod destR) (Mod srcR))
                else if lt srcVersion destVersion then
                  Inr (indirect (destR\<lparr>Mod := (Mod destR)\<lparr>Version := Version (Mod srcR)\<rparr>\<rparr>))
                else Inr (indirect destR)))
      else Inr (indirect destR))"

text \<open>
  The inner loop over \<^verbatim>\<open>dest.Require\<close> for one source entry (lines 96 to 130). The
  entries are pointers, so an assignment to \<^verbatim>\<open>destR\<close> changes the list in place: the
  result is the list as the loop leaves it, the flag \<^verbatim>\<open>found\<close>, and the error of an
  early return.
\<close>

fun scanRequire ::
  "(string \<Rightarrow> semver_Version option) \<Rightarrow> (semver_Version \<Rightarrow> semver_Version \<Rightarrow> bool) \<Rightarrow>
   bool \<Rightarrow> Require \<Rightarrow> Require list \<Rightarrow> Require list \<times> bool \<times> error option" where
  "scanRequire nv lt forceOverwrite srcR [] = ([], False, None)"
| "scanRequire nv lt forceOverwrite srcR (destR # rest) =
     (if String_eq (Mod srcR) (Mod destR) then (destR # rest, True, None)
      else if Path (Mod srcR) = Path (Mod destR) then
        (case samePath nv lt forceOverwrite srcR destR of
           Inl err \<Rightarrow> (destR # rest, False, Some err)
         | Inr destR' \<Rightarrow>
            (case scanRequire nv lt forceOverwrite srcR rest of
               (rest', found, err) \<Rightarrow> (destR' # rest', found, err)))
      else
        (case scanRequire nv lt forceOverwrite srcR rest of
           (rest', found, err) \<Rightarrow> (destR # rest', found, err)))"

text \<open>The body of the outer loop for one source entry (lines 95 to 135).\<close>

definition requireEntry ::
  "(string \<Rightarrow> semver_Version option) \<Rightarrow> (semver_Version \<Rightarrow> semver_Version \<Rightarrow> bool) \<Rightarrow>
   bool \<Rightarrow> Require \<Rightarrow> File \<Rightarrow> File \<times> error option" where
  "requireEntry nv lt forceOverwrite srcR dest =
     (case scanRequire nv lt forceOverwrite srcR (Require dest) of
        (rs, found, Some err) \<Rightarrow> (dest\<lparr>Require := rs\<rparr>, Some err)
      | (rs, found, None) \<Rightarrow>
          if \<not> found then
            (AddNewRequire (Path (Mod srcR)) (Version (Mod srcR)) (Indirect srcR)
               (dest\<lparr>Require := rs\<rparr>), None)
          else (dest\<lparr>Require := rs\<rparr>, None))"

text \<open>The outer loop over \<^verbatim>\<open>src.Require\<close> (lines 94 to 138).\<close>

fun requireLoop ::
  "(string \<Rightarrow> semver_Version option) \<Rightarrow> (semver_Version \<Rightarrow> semver_Version \<Rightarrow> bool) \<Rightarrow>
   bool \<Rightarrow> Require list \<Rightarrow> File \<Rightarrow> File \<times> error option" where
  "requireLoop nv lt forceOverwrite [] dest = (dest, None)"
| "requireLoop nv lt forceOverwrite (srcR # srcs) dest =
     (case requireEntry nv lt forceOverwrite srcR dest of
        (dest', Some err) \<Rightarrow> (dest', Some err)
      | (dest', None) \<Rightarrow> requireLoop nv lt forceOverwrite srcs dest')"

text \<open>
  \<^verbatim>\<open>mergeRequires(dest, src, forceOverwrite)\<close>: the destination as the call leaves it,
  and the error it returns.
\<close>

definition mergeRequires ::
  "(string \<Rightarrow> semver_Version option) \<Rightarrow> (semver_Version \<Rightarrow> semver_Version \<Rightarrow> bool) \<Rightarrow>
   File \<Rightarrow> File \<Rightarrow> bool \<Rightarrow> File \<times> error option" where
  "mergeRequires nv lt dest src forceOverwrite =
     (case Module src of
        None \<Rightarrow> (dest, Some NilModule)
      | Some m \<Rightarrow> requireLoop nv lt forceOverwrite (Require src) (DropRequire (Path m) dest))"

section \<open>The replacement merge\<close>

text \<open>
  The first loop (lines 151 to 156) collects the old coordinates to drop; it reads
  \<^verbatim>\<open>src.Module\<close> once for each destination directive, so that a nil \<^verbatim>\<open>Module\<close> panics
  only when the destination has a directive.
\<close>

definition dropVersions :: "string \<Rightarrow> File \<Rightarrow> module_Version list" where
  "dropVersions srcPath dest = map Old (filter (\<lambda>r. Path (Old r) = srcPath) (Replace dest))"

text \<open>
  The inner loop over \<^verbatim>\<open>dest.Replace\<close> for one source directive (lines 164 to 175):
  the flag \<^verbatim>\<open>found\<close> and the error of an early return. It assigns nothing.
\<close>

fun scanReplace :: "Replace \<Rightarrow> Replace list \<Rightarrow> bool \<times> error option" where
  "scanReplace srcR [] = (False, None)"
| "scanReplace srcR (destR # rest) =
     (if String_eq (Old srcR) (Old destR) then (True, None)
      else if Path (Old srcR) = Path (Old destR) \<and> Version (Old srcR) = Version (Old destR) then
        (if Path (New srcR) \<noteq> Path (New destR) \<or> Version (New srcR) \<noteq> Version (New destR)
         then (False, Some ReplaceMismatch)
         else scanReplace srcR rest)
      else scanReplace srcR rest)"

fun replaceLoop :: "Replace list \<Rightarrow> File \<Rightarrow> File \<times> error option" where
  "replaceLoop [] dest = (dest, None)"
| "replaceLoop (srcR # srcs) dest =
     (case scanReplace srcR (Replace dest) of
        (found, Some err) \<Rightarrow> (dest, Some err)
      | (found, None) \<Rightarrow>
          replaceLoop srcs
            (if \<not> found then
               AddReplace (Path (Old srcR)) (Version (Old srcR)) (Path (New srcR)) (Version (New srcR)) dest
             else dest))"

definition mergeReplacements :: "File \<Rightarrow> File \<Rightarrow> File \<times> error option" where
  "mergeReplacements dest src =
     (if Replace dest \<noteq> [] \<and> Module src = None then (dest, Some NilModule)
      else
        replaceLoop (Replace src)
          (fold (\<lambda>v d. DropReplace (Path v) (Version v) d)
             (case Module src of None \<Rightarrow> [] | Some m \<Rightarrow> dropVersions (Path m) dest) dest))"

section \<open>The exclusion merge\<close>

fun scanExclude :: "Exclude \<Rightarrow> Exclude list \<Rightarrow> bool" where
  "scanExclude srcE [] = False"
| "scanExclude srcE (destE # rest) =
     (if String_eq (Exclude.Mod srcE) (Exclude.Mod destE) then True else scanExclude srcE rest)"

fun excludeLoop :: "Exclude list \<Rightarrow> File \<Rightarrow> File" where
  "excludeLoop [] dest = dest"
| "excludeLoop (srcE # srcs) dest =
     excludeLoop srcs
       (if \<not> scanExclude srcE (Exclude dest) then
          AddExclude (Path (Exclude.Mod srcE)) (Version (Exclude.Mod srcE)) dest
        else dest)"

definition mergeExcludes :: "File \<Rightarrow> File \<Rightarrow> File \<times> error option" where
  "mergeExcludes dest src = (excludeLoop (Exclude src) dest, None)"

section \<open>The three passes in sequence\<close>

text \<open>
  The part of \<^verbatim>\<open>run\<close> between the parsing of the two files and the formatting of the
  result (lines 60 to 68): a pass that returns an error ends the run.
\<close>

definition run ::
  "(string \<Rightarrow> semver_Version option) \<Rightarrow> (semver_Version \<Rightarrow> semver_Version \<Rightarrow> bool) \<Rightarrow>
   File \<Rightarrow> File \<Rightarrow> bool \<Rightarrow> File \<times> error option" where
  "run nv lt dest src forceOverwrite =
     (case mergeRequires nv lt dest src forceOverwrite of
        (d1, Some err) \<Rightarrow> (d1, Some err)
      | (d1, None) \<Rightarrow>
          (case mergeReplacements d1 src of
             (d2, Some err) \<Rightarrow> (d2, Some err)
           | (d2, None) \<Rightarrow> mergeExcludes d2 src))"

section \<open>Writing manifests down\<close>

text \<open>Shorthand to write the entries of a manifest in the examples.\<close>

abbreviation (input) req :: "string \<Rightarrow> string \<Rightarrow> bool \<Rightarrow> Require" where
  "req p v i \<equiv> \<lparr>Mod = \<lparr>Path = p, Version = v\<rparr>, Indirect = i\<rparr>"

abbreviation (input) repl :: "string \<Rightarrow> string \<Rightarrow> string \<Rightarrow> string \<Rightarrow> Replace" where
  "repl p v p' v' \<equiv> \<lparr>Old = \<lparr>Path = p, Version = v\<rparr>, New = \<lparr>Path = p', Version = v'\<rparr>\<rparr>"

abbreviation (input) excl :: "string \<Rightarrow> string \<Rightarrow> Exclude" where
  "excl p v \<equiv> \<lparr>Exclude.Mod = \<lparr>Path = p, Version = v\<rparr>\<rparr>"

abbreviation (input) manifest ::
  "string \<Rightarrow> Require list \<Rightarrow> Replace list \<Rightarrow> Exclude list \<Rightarrow> File" where
  "manifest m rs ps es \<equiv>
     \<lparr>Module = Some \<lparr>Path = m, Version = []\<rparr>, Require = rs, Replace = ps, Exclude = es\<rparr>"

named_theorems eval_defs \<open>the definitions that the evaluation of an example unfolds\<close>

declare
  mergeRequires_def [eval_defs] requireEntry_def [eval_defs] samePath_def [eval_defs]
  DropRequire_def [eval_defs] AddNewRequire_def [eval_defs] String_eq_def [eval_defs]
  canCompare_def [eval_defs] Prerelease_def [eval_defs]
  semver_NewVersion_def [eval_defs] semver_LessThan_def [eval_defs]
  parseNumber_def [eval_defs] digitVal_def [eval_defs]
  mergeReplacements_def [eval_defs] dropVersions_def [eval_defs]
  DropReplace_def [eval_defs] AddReplace_def [eval_defs]
  mergeExcludes_def [eval_defs] AddExclude_def [eval_defs] run_def [eval_defs]

section \<open>The comparability predicate (C8)\<close>

text \<open>
  C8. \<^verbatim>\<open>canCompare\<close> returns true for two parsed versions if and only if either both
  have an empty pre-release tag or both have a non-empty one.
\<close>

theorem canCompare_iff:
  "canCompare a b \<longleftrightarrow>
     (Prerelease a = [] \<and> Prerelease b = []) \<or> (Prerelease a \<noteq> [] \<and> Prerelease b \<noteq> [])"
  by (simp add: canCompare_def)

theorem canCompare_iff_witness:
  "canCompare \<lparr>major = 1, minor = 2, patch = 0, pre = [], metadata = []\<rparr>
              \<lparr>major = 1, minor = 1, patch = 0, pre = [], metadata = []\<rparr>
   \<and> canCompare \<lparr>major = 0, minor = 0, patch = 0, pre = ''20190101000000-abcdef000000'', metadata = []\<rparr>
                \<lparr>major = 1, minor = 0, patch = 0, pre = ''rc1'', metadata = []\<rparr>
   \<and> \<not> canCompare \<lparr>major = 1, minor = 2, patch = 0, pre = [], metadata = []\<rparr>
                  \<lparr>major = 0, minor = 0, patch = 0, pre = ''20190101000000-abcdef000000'', metadata = []\<rparr>"
  using
    canCompare_iff [of "\<lparr>major = 1, minor = 2, patch = 0, pre = [], metadata = []\<rparr>"
                       "\<lparr>major = 1, minor = 1, patch = 0, pre = [], metadata = []\<rparr>"]
    canCompare_iff [of "\<lparr>major = 0, minor = 0, patch = 0, pre = ''20190101000000-abcdef000000'', metadata = []\<rparr>"
                       "\<lparr>major = 1, minor = 0, patch = 0, pre = ''rc1'', metadata = []\<rparr>"]
    canCompare_iff [of "\<lparr>major = 1, minor = 2, patch = 0, pre = [], metadata = []\<rparr>"
                       "\<lparr>major = 0, minor = 0, patch = 0, pre = ''20190101000000-abcdef000000'', metadata = []\<rparr>"]
  by (simp add: Prerelease_def)

section \<open>The body of the path match\<close>

text \<open>
  Lines 125 to 128 assign \<^verbatim>\<open>srcR.Indirect\<close> to \<^verbatim>\<open>destR.Indirect\<close> exactly when the two are
  already equal, so they never change the destination entry.
\<close>

lemma indirect_unchanged:
  "(if Indirect d \<noteq> (\<not> Indirect s) then d\<lparr>Indirect := Indirect s\<rparr> else d) = (d::Require)"
  by (cases "Indirect d = Indirect s") auto

lemma samePath_eq:
  "samePath nv lt f S D =
     (if Version (Mod S) \<noteq> Version (Mod D) then
        (case nv (Version (Mod D)) of
           None \<Rightarrow> Inl InvalidSemVer
         | Some dv \<Rightarrow>
            (case nv (Version (Mod S)) of
               None \<Rightarrow> Inl InvalidSemVer
             | Some sv \<Rightarrow>
                if f then Inr (D\<lparr>Mod := (Mod D)\<lparr>Version := Version (Mod S)\<rparr>\<rparr>)
                else if \<not> canCompare dv sv then Inl (CannotReconcile (Mod D) (Mod S))
                else if lt sv dv then Inr (D\<lparr>Mod := (Mod D)\<lparr>Version := Version (Mod S)\<rparr>\<rparr>)
                else Inr D))
      else Inr D)"
  unfolding samePath_def Let_def
  by (simp add: indirect_unchanged split: option.splits)

lemma samePath_Inr:
  assumes "samePath nv lt f S D = Inr D'"
  shows "D' = D \<or> D' = D\<lparr>Mod := (Mod D)\<lparr>Version := Version (Mod S)\<rparr>\<rparr>"
  using assms by (auto simp: samePath_eq split: if_splits option.splits)

lemma samePath_Path:
  "samePath nv lt f S D = Inr D' \<Longrightarrow> Path (Mod D') = Path (Mod D)"
  by (drule samePath_Inr) auto

lemma samePath_Indirect:
  "samePath nv lt f S D = Inr D' \<Longrightarrow> Indirect D' = Indirect D"
  by (drule samePath_Inr) auto

section \<open>The scan of the destination requirements\<close>

lemma scanRequire_length:
  "length (fst (scanRequire nv lt f S ds)) = length ds"
  by (induction ds) (auto split: sum.splits prod.splits)

lemma scanRequire_paths:
  "map (\<lambda>d. Path (Mod d)) (fst (scanRequire nv lt f S ds)) = map (\<lambda>d. Path (Mod d)) ds"
  by (induction ds) (auto split: sum.splits prod.splits dest: samePath_Path)

lemma scanRequire_Indirect:
  "map Indirect (fst (scanRequire nv lt f S ds)) = map Indirect ds"
  by (induction ds) (auto split: sum.splits prod.splits dest: samePath_Indirect)

text \<open>An entry with another path than the source entry's is left as it is.\<close>

lemma scanRequire_other:
  "i < length ds \<Longrightarrow> Path (Mod (ds ! i)) \<noteq> Path (Mod S) \<Longrightarrow>
   fst (scanRequire nv lt f S ds) ! i = ds ! i"
proof (induction ds arbitrary: i)
  case Nil
  then show ?case by simp
next
  case (Cons d ds)
  show ?case
  proof (cases i)
    case 0
    with Cons.prems show ?thesis
      by (auto simp: String_eq_def split: sum.splits prod.splits)
  next
    case (Suc j)
    with Cons.prems have "fst (scanRequire nv lt f S ds) ! j = ds ! j"
      by (intro Cons.IH) auto
    with Suc show ?thesis
      by (auto split: sum.splits prod.splits)
  qed
qed

lemma scanRequire_filter:
  "Path (Mod S) \<in> A \<Longrightarrow>
   filter (\<lambda>d. Path (Mod d) \<notin> A) (fst (scanRequire nv lt f S ds)) =
   filter (\<lambda>d. Path (Mod d) \<notin> A) ds"
  by (induction ds) (auto split: sum.splits prod.splits dest: samePath_Path)

lemma String_eq_iff: "String_eq a b \<longleftrightarrow> a = b"
  by (cases a, cases b) (auto simp: String_eq_def)

section \<open>What the requirement pass leaves alone\<close>

lemma requireEntry_filter:
  assumes "Path (Mod S) \<in> A"
  shows "filter (\<lambda>d. Path (Mod d) \<notin> A) (Require (fst (requireEntry nv lt f S dest))) =
         filter (\<lambda>d. Path (Mod d) \<notin> A) (Require dest)"
proof -
  obtain rs found err where sc: "scanRequire nv lt f S (Require dest) = (rs, found, err)"
    by (cases "scanRequire nv lt f S (Require dest)") auto
  have "filter (\<lambda>d. Path (Mod d) \<notin> A) rs = filter (\<lambda>d. Path (Mod d) \<notin> A) (Require dest)"
    using scanRequire_filter [OF assms, of nv lt f "Require dest"] sc by simp
  then show ?thesis
    using assms sc by (cases err) (auto simp: requireEntry_def AddNewRequire_def)
qed

lemma requireLoop_filter:
  "(\<lambda>s. Path (Mod s)) ` set srcs \<subseteq> A \<Longrightarrow>
   filter (\<lambda>d. Path (Mod d) \<notin> A) (Require (fst (requireLoop nv lt f srcs dest))) =
   filter (\<lambda>d. Path (Mod d) \<notin> A) (Require dest)"
proof (induction srcs arbitrary: dest)
  case Nil
  then show ?case by simp
next
  case (Cons S srcs)
  obtain d1 e1 where st: "requireEntry nv lt f S dest = (d1, e1)"
    by (cases "requireEntry nv lt f S dest") auto
  have one: "filter (\<lambda>d. Path (Mod d) \<notin> A) (Require d1) =
             filter (\<lambda>d. Path (Mod d) \<notin> A) (Require dest)"
    using requireEntry_filter [of S A nv lt f dest] Cons.prems st by simp
  show ?case
  proof (cases e1)
    case None
    then show ?thesis using st one Cons.IH [of d1] Cons.prems by simp
  next
    case (Some e)
    then show ?thesis using st one by simp
  qed
qed

lemma requireEntry_rest:
  "Module (fst (requireEntry nv lt f S dest)) = Module dest \<and>
   Replace (fst (requireEntry nv lt f S dest)) = Replace dest \<and>
   Exclude (fst (requireEntry nv lt f S dest)) = Exclude dest"
  by (auto simp: requireEntry_def AddNewRequire_def split: prod.splits option.splits)

lemma requireLoop_rest:
  "Module (fst (requireLoop nv lt f srcs dest)) = Module dest \<and>
   Replace (fst (requireLoop nv lt f srcs dest)) = Replace dest \<and>
   Exclude (fst (requireLoop nv lt f srcs dest)) = Exclude dest"
proof (induction srcs arbitrary: dest)
  case Nil
  then show ?case by simp
next
  case (Cons S srcs)
  show ?case
    using requireEntry_rest [of nv lt f S dest] Cons.IH [of "fst (requireEntry nv lt f S dest)"]
    by (auto split: prod.splits option.splits)
qed

lemma mergeRequires_filter:
  assumes "Module src = Some m"
  shows "filter (\<lambda>d. Path (Mod d) \<notin> insert (Path m) ((\<lambda>s. Path (Mod s)) ` set (Require src)))
           (Require (fst (mergeRequires nv lt dest src forceOverwrite))) =
         filter (\<lambda>d. Path (Mod d) \<notin> insert (Path m) ((\<lambda>s. Path (Mod s)) ` set (Require src)))
           (Require dest)"
proof -
  let ?A = "insert (Path m) ((\<lambda>s. Path (Mod s)) ` set (Require src))"
  have "filter (\<lambda>d. Path (Mod d) \<notin> ?A) (Require (DropRequire (Path m) dest)) =
        filter (\<lambda>d. Path (Mod d) \<notin> ?A) (Require dest)"
    by (auto simp: DropRequire_def intro: filter_cong)
  moreover have "filter (\<lambda>d. Path (Mod d) \<notin> ?A)
       (Require (fst (requireLoop nv lt forceOverwrite (Require src) (DropRequire (Path m) dest)))) =
     filter (\<lambda>d. Path (Mod d) \<notin> ?A) (Require (DropRequire (Path m) dest))"
    by (rule requireLoop_filter) auto
  ultimately show ?thesis using assms by (simp add: mergeRequires_def)
qed

text \<open>
  C10. A destination requirement whose path is neither the source's module path nor
  the path of a source requirement is in the destination as the pass leaves it (also
  when the pass returns an error), with its path, version and indirect flag; and
  these entries are the same ones, in the same order, before and after.
\<close>

theorem mergeRequires_frame:
  assumes "Module src = Some m"
  shows "(\<forall>d \<in> set (Require dest).
            Path (Mod d) \<noteq> Path m \<and> Path (Mod d) \<notin> (\<lambda>s. Path (Mod s)) ` set (Require src) \<longrightarrow>
            d \<in> set (Require (fst (mergeRequires nv lt dest src forceOverwrite)))) \<and>
         filter (\<lambda>d. Path (Mod d) \<notin> insert (Path m) ((\<lambda>s. Path (Mod s)) ` set (Require src)))
           (Require (fst (mergeRequires nv lt dest src forceOverwrite))) =
         filter (\<lambda>d. Path (Mod d) \<notin> insert (Path m) ((\<lambda>s. Path (Mod s)) ` set (Require src)))
           (Require dest)"
proof -
  let ?keep = "\<lambda>d. Path (Mod d) \<notin> insert (Path m) ((\<lambda>s. Path (Mod s)) ` set (Require src))"
  let ?res = "Require (fst (mergeRequires nv lt dest src forceOverwrite))"
  have eq: "filter ?keep ?res = filter ?keep (Require dest)"
    by (rule mergeRequires_filter [OF assms])
  have "d \<in> set ?res" if "d \<in> set (Require dest)" and "?keep d" for d
  proof -
    from that have "d \<in> set (filter ?keep (Require dest))" by simp
    then have "d \<in> set (filter ?keep ?res)" by (simp only: eq)
    then show ?thesis by simp
  qed
  with eq show ?thesis by auto
qed

theorem mergeRequires_frame_witness:
  "req ''other'' ''v0.3.0'' True \<in>
     set (Require (fst (mergeRequires semver_NewVersion semver_LessThan
       (manifest ''dest'' [req ''other'' ''v0.3.0'' True, req ''src'' ''v1.0.0'' False,
          req ''pkg'' ''v1.2.0'' False] [] [])
       (manifest ''src'' [req ''pkg'' ''v1.1.0'' False] [] []) False)))"
  using mergeRequires_frame [of "manifest ''src'' [req ''pkg'' ''v1.1.0'' False] [] []"
      "\<lparr>Path = ''src'', Version = []\<rparr>"
      "manifest ''dest'' [req ''other'' ''v0.3.0'' True, req ''src'' ''v1.0.0'' False,
          req ''pkg'' ''v1.2.0'' False] [] []"
      semver_NewVersion semver_LessThan False]
  by simp

section \<open>The exclusion merge (C7)\<close>

lemma Exclude_eq_iff: "(e::Exclude) = d \<longleftrightarrow> Exclude.Mod e = Exclude.Mod d"
  by (cases e, cases d) auto

lemma scanExclude_iff: "scanExclude e ds \<longleftrightarrow> e \<in> set ds"
  by (induction ds) (auto simp: String_eq_iff Exclude_eq_iff)

lemma AddExclude_Exclude:
  "Exclude (AddExclude (Path (Exclude.Mod e)) (Version (Exclude.Mod e)) dest) = Exclude dest @ [e]"
  by (simp add: AddExclude_def Exclude_eq_iff)

lemma excludeLoop_Exclude:
  "\<exists>app. Exclude (excludeLoop srcs dest) = Exclude dest @ app \<and> distinct app \<and>
         set app = set srcs - set (Exclude dest)"
proof (induction srcs arbitrary: dest)
  case Nil
  then show ?case by simp
next
  case (Cons e srcs)
  show ?case
  proof (cases "e \<in> set (Exclude dest)")
    case True
    from Cons.IH [of dest] obtain app where
      "Exclude (excludeLoop srcs dest) = Exclude dest @ app" "distinct app"
      "set app = set srcs - set (Exclude dest)" by blast
    with True show ?thesis by (auto simp: scanExclude_iff)
  next
    case False
    let ?d1 = "AddExclude (Path (Exclude.Mod e)) (Version (Exclude.Mod e)) dest"
    from Cons.IH [of ?d1] obtain app where
      app: "Exclude (excludeLoop srcs ?d1) = Exclude ?d1 @ app" "distinct app"
      "set app = set srcs - set (Exclude ?d1)" by blast
    have "Exclude (excludeLoop (e # srcs) dest) = Exclude dest @ (e # app)"
      using False app(1) by (simp add: scanExclude_iff AddExclude_Exclude)
    moreover have "distinct (e # app)"
      using app(2,3) by (simp add: AddExclude_Exclude)
    moreover have "set (e # app) = set (e # srcs) - set (Exclude dest)"
      using False app(3) by (auto simp: AddExclude_Exclude)
    ultimately show ?thesis by blast
  qed
qed

lemma excludeLoop_rest:
  "Module (excludeLoop srcs dest) = Module dest \<and>
   Require (excludeLoop srcs dest) = Require dest \<and>
   Replace (excludeLoop srcs dest) = Replace dest"
  by (induction srcs arbitrary: dest) (auto simp: AddExclude_def)

text \<open>
  C7. The exclusion pass never returns an error and takes no version primitive. It
  leaves the destination's exclusions in place and appends, once each, exactly the
  source exclusions whose coordinate no destination exclusion has: the result is the
  union of the two lists. Nothing else of the destination changes.
\<close>

theorem mergeExcludes_union:
  "snd (mergeExcludes dest src) = None \<and>
   (\<exists>app. Exclude (fst (mergeExcludes dest src)) = Exclude dest @ app \<and> distinct app \<and>
          set app = set (Exclude src) - set (Exclude dest)) \<and>
   set (Exclude (fst (mergeExcludes dest src))) = set (Exclude dest) \<union> set (Exclude src) \<and>
   Module (fst (mergeExcludes dest src)) = Module dest \<and>
   Require (fst (mergeExcludes dest src)) = Require dest \<and>
   Replace (fst (mergeExcludes dest src)) = Replace dest"
proof -
  obtain app where app: "Exclude (excludeLoop (Exclude src) dest) = Exclude dest @ app"
    "distinct app" "set app = set (Exclude src) - set (Exclude dest)"
    using excludeLoop_Exclude [of "Exclude src" dest] by blast
  then have "set (Exclude (excludeLoop (Exclude src) dest)) = set (Exclude dest) \<union> set (Exclude src)"
    by auto
  with app show ?thesis
    using excludeLoop_rest [of "Exclude src" dest] by (auto simp: mergeExcludes_def)
qed

theorem mergeExcludes_union_witness:
  "mergeExcludes
     (manifest ''dest'' [] [] [excl ''a'' ''v1.0.0'', excl ''b'' ''v1.0.0''])
     (manifest ''src'' [] [] [excl ''b'' ''v1.0.0'', excl ''b'' ''v2.0.0'', excl ''c'' ''v1.0.0'',
        excl ''b'' ''v2.0.0'']) =
   (manifest ''dest'' [] [] [excl ''a'' ''v1.0.0'', excl ''b'' ''v1.0.0'', excl ''b'' ''v2.0.0'',
      excl ''c'' ''v1.0.0''], None)"
  using mergeExcludes_union [of
     "manifest ''dest'' [] [] [excl ''a'' ''v1.0.0'', excl ''b'' ''v1.0.0'']"
     "manifest ''src'' [] [] [excl ''b'' ''v1.0.0'', excl ''b'' ''v2.0.0'', excl ''c'' ''v1.0.0'',
        excl ''b'' ''v2.0.0'']"]
  by (simp add: eval_defs)

section \<open>Directness (C1)\<close>

text \<open>
  C1. The destination marks \<^verbatim>\<open>pkg\<close> indirect and the source requires the same version
  directly: the claim promotes the destination entry to direct, the pass leaves it
  indirect (the scan stops at the exact match, line 100; and the assignment of lines
  125 to 128 changes nothing, see \<open>indirect_unchanged\<close> and \<open>scanRequire_Indirect\<close>;
  \<open>requireLoop_Indirect\<close> below has it for every destination entry and every source).
\<close>

theorem mergeRequires_keeps_indirect:
  "mergeRequires semver_NewVersion semver_LessThan
     (manifest ''dest'' [req ''pkg'' ''v1.0.0'' True] [] [])
     (manifest ''src'' [req ''pkg'' ''v1.0.0'' False] [] []) False =
   (manifest ''dest'' [req ''pkg'' ''v1.0.0'' True] [] [], None)"
  by (simp add: eval_defs)

section \<open>Conflicting replacements (C3)\<close>

text \<open>
  The scan of the destination directives never returns the error of line 172: the
  test of line 170 is reached only when the test of line 165 failed, and the two
  tests hold for the same directives.
\<close>

lemma scanReplace_no_error: "snd (scanReplace S ds) = None"
  by (induction ds) (auto simp: String_eq_def)

text \<open>
  C3. Destination and source redirect \<^verbatim>\<open>pkg@v1\<close> to two different targets: the claim
  aborts with a conflict error, the pass returns no error and keeps the destination's
  target.
\<close>

theorem mergeReplacements_keeps_conflict:
  "mergeReplacements
     (manifest ''dest'' [] [repl ''pkg'' ''v1'' ''local/pkg'' ''v1-fork''] [])
     (manifest ''src'' [] [repl ''pkg'' ''v1'' ''local/pkg'' ''v2-fork''] []) =
   (manifest ''dest'' [] [repl ''pkg'' ''v1'' ''local/pkg'' ''v1-fork''] [], None)"
  by (simp add: eval_defs)

section \<open>The first destination entry with the path of a source entry\<close>

lemma scanRequire_first:
  assumes "\<forall>j<i. Path (Mod (ds ! j)) \<noteq> Path (Mod S)" and "i < length ds"
    and "Path (Mod (ds ! i)) = Path (Mod S)"
    and "Version (Mod (ds ! i)) \<noteq> Version (Mod S)"
    and "samePath nv lt f S (ds ! i) = Inr D'"
  shows "fst (scanRequire nv lt f S ds) ! i = D'"
  using assms
proof (induction ds arbitrary: i)
  case Nil
  then show ?case by simp
next
  case (Cons d ds)
  show ?case
  proof (cases i)
    case 0
    with Cons.prems show ?thesis
      by (auto simp: String_eq_def split: prod.splits)
  next
    case (Suc k)
    from Cons.prems(1) Suc have d: "Path (Mod d) \<noteq> Path (Mod S)" by auto
    from Cons.prems(1) Suc have "\<forall>j<k. Path (Mod (ds ! j)) \<noteq> Path (Mod S)" by auto
    with Cons.prems Suc have "fst (scanRequire nv lt f S ds) ! k = D'"
      by (intro Cons.IH) auto
    with d Suc show ?thesis
      by (auto simp: String_eq_def split: prod.splits)
  qed
qed

lemma scanRequire_first_error:
  assumes "\<forall>j<i. Path (Mod (ds ! j)) \<noteq> Path (Mod S)" and "i < length ds"
    and "Path (Mod (ds ! i)) = Path (Mod S)"
    and "Version (Mod (ds ! i)) \<noteq> Version (Mod S)"
    and "samePath nv lt f S (ds ! i) = Inl e"
  shows "scanRequire nv lt f S ds = (ds, False, Some e)"
  using assms
proof (induction ds arbitrary: i)
  case Nil
  then show ?case by simp
next
  case (Cons d ds)
  show ?case
  proof (cases i)
    case 0
    with Cons.prems show ?thesis
      by (auto simp: String_eq_def)
  next
    case (Suc k)
    from Cons.prems(1) Suc have d: "Path (Mod d) \<noteq> Path (Mod S)" by auto
    from Cons.prems(1) Suc have "\<forall>j<k. Path (Mod (ds ! j)) \<noteq> Path (Mod S)" by auto
    with Cons.prems Suc have "scanRequire nv lt f S ds = (ds, False, Some e)"
      by (intro Cons.IH) auto
    with d Suc show ?thesis
      by (auto simp: String_eq_def)
  qed
qed

lemma requireEntry_Require:
  "\<exists>app. Require (fst (requireEntry nv lt f S dest)) =
          fst (scanRequire nv lt f S (Require dest)) @ app \<and>
          set app \<subseteq> {S}"
  by (cases S) (auto simp: requireEntry_def AddNewRequire_def split: prod.splits option.splits)

lemma requireEntry_nth:
  assumes "i < length (Require dest)"
  shows "Require (fst (requireEntry nv lt f S dest)) ! i =
         fst (scanRequire nv lt f S (Require dest)) ! i"
  using requireEntry_Require [of nv lt f S dest] assms
  by (auto simp: nth_append scanRequire_length)

lemma requireEntry_length:
  "length (Require dest) \<le> length (Require (fst (requireEntry nv lt f S dest)))"
  using requireEntry_Require [of nv lt f S dest]
  by (auto simp: scanRequire_length)

lemma requireEntry_path:
  assumes "i < length (Require dest)"
  shows "Path (Mod (Require (fst (requireEntry nv lt f S dest)) ! i)) = Path (Mod (Require dest ! i))"
proof -
  have "map (\<lambda>d. Path (Mod d)) (fst (scanRequire nv lt f S (Require dest))) ! i =
        map (\<lambda>d. Path (Mod d)) (Require dest) ! i"
    by (simp only: scanRequire_paths)
  then show ?thesis
    using assms by (simp add: requireEntry_nth scanRequire_length)
qed

lemma requireLoop_length:
  "length (Require dest) \<le> length (Require (fst (requireLoop nv lt f srcs dest)))"
proof (induction srcs arbitrary: dest)
  case Nil
  then show ?case by simp
next
  case (Cons S srcs)
  show ?case
    using requireEntry_length [of dest nv lt f S]
      Cons.IH [of "fst (requireEntry nv lt f S dest)"]
    by (auto split: prod.splits option.splits)
qed

lemma requireLoop_path:
  "i < length (Require dest) \<Longrightarrow>
   Path (Mod (Require (fst (requireLoop nv lt f srcs dest)) ! i)) = Path (Mod (Require dest ! i))"
proof (induction srcs arbitrary: dest)
  case Nil
  then show ?case by simp
next
  case (Cons S srcs)
  have "i < length (Require (fst (requireEntry nv lt f S dest)))"
    using Cons.prems requireEntry_length [of dest nv lt f S] by simp
  then show ?case
    using Cons.IH [of "fst (requireEntry nv lt f S dest)"] requireEntry_path [OF Cons.prems, of nv lt f S]
    by (auto split: prod.splits option.splits)
qed

text \<open>No destination requirement ever changes its indirect flag.\<close>

lemma requireEntry_Indirect:
  assumes "i < length (Require dest)"
  shows "Indirect (Require (fst (requireEntry nv lt f S dest)) ! i) = Indirect (Require dest ! i)"
proof -
  have "map Indirect (fst (scanRequire nv lt f S (Require dest))) ! i = map Indirect (Require dest) ! i"
    by (simp only: scanRequire_Indirect)
  then show ?thesis
    using assms by (simp add: requireEntry_nth scanRequire_length)
qed

lemma requireLoop_Indirect:
  "i < length (Require dest) \<Longrightarrow>
   Indirect (Require (fst (requireLoop nv lt f srcs dest)) ! i) = Indirect (Require dest ! i)"
proof (induction srcs arbitrary: dest)
  case Nil
  then show ?case by simp
next
  case (Cons S srcs)
  have "i < length (Require (fst (requireEntry nv lt f S dest)))"
    using Cons.prems requireEntry_length [of dest nv lt f S] by simp
  then show ?case
    using Cons.IH [of "fst (requireEntry nv lt f S dest)"]
      requireEntry_Indirect [OF Cons.prems, of nv lt f S]
    by (auto split: prod.splits option.splits)
qed

lemma requireLoop_other:
  "i < length (Require dest) \<Longrightarrow>
   Path (Mod (Require dest ! i)) \<notin> (\<lambda>s. Path (Mod s)) ` set srcs \<Longrightarrow>
   Require (fst (requireLoop nv lt f srcs dest)) ! i = Require dest ! i"
proof (induction srcs arbitrary: dest)
  case Nil
  then show ?case by simp
next
  case (Cons S srcs)
  let ?d1 = "fst (requireEntry nv lt f S dest)"
  have i1: "i < length (Require ?d1)"
    using Cons.prems(1) requireEntry_length [of dest nv lt f S] by simp
  have same: "Require ?d1 ! i = Require dest ! i"
    using Cons.prems by (simp add: requireEntry_nth scanRequire_other)
  then have "Require (fst (requireLoop nv lt f srcs ?d1)) ! i = Require ?d1 ! i"
    using Cons.prems i1 by (intro Cons.IH) auto
  with same show ?case
    by (auto split: prod.splits option.splits)
qed

lemma requireLoop_append:
  "requireLoop nv lt f (xs @ ys) dest =
     (case requireLoop nv lt f xs dest of
        (d, Some e) \<Rightarrow> (d, Some e)
      | (d, None) \<Rightarrow> requireLoop nv lt f ys d)"
  by (induction xs arbitrary: dest) (auto split: prod.splits option.splits)

text \<open>
  The source entries before \<open>S\<close> have other paths: they leave in place the first
  destination entry with the path of \<open>S\<close>, and it stays the first.
\<close>

lemma requireLoop_before:
  assumes others: "\<forall>s \<in> set before. Path (Mod s) \<noteq> Path (Mod S)"
    and i: "i < length (Require dst)"
    and first: "\<forall>j<i. Path (Mod (Require dst ! j)) \<noteq> Path (Mod S)"
    and path: "Path (Mod (Require dst ! i)) = Path (Mod S)"
  shows "i < length (Require (fst (requireLoop nv lt f before dst))) \<and>
         Require (fst (requireLoop nv lt f before dst)) ! i = Require dst ! i \<and>
         (\<forall>j<i. Path (Mod (Require (fst (requireLoop nv lt f before dst)) ! j)) \<noteq> Path (Mod S))"
proof -
  let ?d1 = "fst (requireLoop nv lt f before dst)"
  have notin: "Path (Mod S) \<notin> (\<lambda>s. Path (Mod s)) ` set before"
    using others by auto
  have i1: "i < length (Require ?d1)"
    using i requireLoop_length [of dst nv lt f before] by simp
  have D1: "Require ?d1 ! i = Require dst ! i"
    using requireLoop_other [of i dst before nv lt f] i path notin by simp
  have first1: "\<forall>j<i. Path (Mod (Require ?d1 ! j)) \<noteq> Path (Mod S)"
  proof (intro allI impI)
    fix j assume "j < i"
    then have "Path (Mod (Require ?d1 ! j)) = Path (Mod (Require dst ! j))"
      using requireLoop_path [of j dst nv lt f before] i by simp
    with first \<open>j < i\<close> show "Path (Mod (Require ?d1 ! j)) \<noteq> Path (Mod S)" by simp
  qed
  from i1 D1 first1 show ?thesis by blast
qed

lemma requireLoop_first:
  assumes loop: "requireLoop nv lt f (before @ S # after) dst = (res, None)"
    and others: "\<forall>s \<in> set before \<union> set after. Path (Mod s) \<noteq> Path (Mod S)"
    and i: "i < length (Require dst)"
    and first: "\<forall>j<i. Path (Mod (Require dst ! j)) \<noteq> Path (Mod S)"
    and path: "Path (Mod (Require dst ! i)) = Path (Mod S)"
    and vers: "Version (Mod (Require dst ! i)) \<noteq> Version (Mod S)"
    and same: "samePath nv lt f S (Require dst ! i) = Inr D'"
  shows "Require res ! i = D'"
proof -
  obtain d1 where d1: "requireLoop nv lt f before dst = (d1, None)"
    and rest: "requireLoop nv lt f (S # after) d1 = (res, None)"
    using loop by (auto simp: requireLoop_append split: prod.splits option.splits)
  obtain d2 where d2: "requireEntry nv lt f S d1 = (d2, None)"
    and d3: "requireLoop nv lt f after d2 = (res, None)"
    using rest by (auto split: prod.splits option.splits)
  have "\<forall>s \<in> set before. Path (Mod s) \<noteq> Path (Mod S)"
    using others by auto
  from requireLoop_before [OF this i first path, of nv lt f] d1
  have i1: "i < length (Require d1)" and D1: "Require d1 ! i = Require dst ! i"
    and first1: "\<forall>j<i. Path (Mod (Require d1 ! j)) \<noteq> Path (Mod S)"
    by simp_all
  have "fst (scanRequire nv lt f S (Require d1)) ! i = D'"
    using first1 i1 path vers same D1 by (intro scanRequire_first) auto
  then have D2: "Require d2 ! i = D'"
    using requireEntry_nth [OF i1, of nv lt f S] d2 by simp
  have i2: "i < length (Require d2)"
    using i1 requireEntry_length [of d1 nv lt f S] d2 by simp
  have "Path (Mod D') = Path (Mod S)"
    using samePath_Path [OF same] path by simp
  moreover have "Path (Mod S) \<notin> (\<lambda>s. Path (Mod s)) ` set after"
    using others by auto
  ultimately show ?thesis
    using requireLoop_other [of i d2 after nv lt f] i2 D2 d3 by simp
qed

lemma requireLoop_first_error:
  assumes loop: "requireLoop nv lt f before dst = (d1, None)"
    and others: "\<forall>s \<in> set before. Path (Mod s) \<noteq> Path (Mod S)"
    and i: "i < length (Require dst)"
    and first: "\<forall>j<i. Path (Mod (Require dst ! j)) \<noteq> Path (Mod S)"
    and path: "Path (Mod (Require dst ! i)) = Path (Mod S)"
    and vers: "Version (Mod (Require dst ! i)) \<noteq> Version (Mod S)"
    and same: "samePath nv lt f S (Require dst ! i) = Inl e"
  shows "requireLoop nv lt f (before @ S # after) dst = (d1, Some e)"
proof -
  from requireLoop_before [OF others i first path, of nv lt f] loop
  have i1: "i < length (Require d1)" and D1: "Require d1 ! i = Require dst ! i"
    and first1: "\<forall>j<i. Path (Mod (Require d1 ! j)) \<noteq> Path (Mod S)"
    by simp_all
  have "scanRequire nv lt f S (Require d1) = (Require d1, False, Some e)"
    using first1 i1 path vers same D1 by (intro scanRequire_first_error [where i = i]) auto
  then have "requireEntry nv lt f S d1 = (d1, Some e)"
    by (simp add: requireEntry_def)
  with loop show ?thesis
    by (simp add: requireLoop_append)
qed

text \<open>With \<^verbatim>\<open>forceOverwrite\<close> set, line 117 is never reached.\<close>

lemma scanRequire_force:
  "snd (snd (scanRequire nv lt True S ds)) \<noteq> Some (CannotReconcile a b)"
  by (induction ds) (auto simp: samePath_eq split: sum.splits prod.splits option.splits if_splits)

lemma requireEntry_force:
  "snd (requireEntry nv lt True S dest) \<noteq> Some (CannotReconcile a b)"
  using scanRequire_force [of nv lt S "Require dest" a b]
  by (auto simp: requireEntry_def split: prod.splits option.splits)

lemma requireLoop_force:
  "snd (requireLoop nv lt True srcs dest) \<noteq> Some (CannotReconcile a b)"
proof (induction srcs arbitrary: dest)
  case Nil
  then show ?case by simp
next
  case (Cons S srcs)
  show ?case
    using requireEntry_force [of nv lt S dest a b] Cons.IH
    by (auto split: prod.splits option.splits)
qed

lemma mergeRequires_first_lower:
  assumes "Module src = Some m"
    and "Require src = before @ S # after"
    and "\<forall>s \<in> set before \<union> set after. Path (Mod s) \<noteq> Path (Mod S)"
    and "i < length (Require (DropRequire (Path m) dest))"
    and "Require (DropRequire (Path m) dest) ! i = D"
    and "\<forall>j<i. Path (Mod (Require (DropRequire (Path m) dest) ! j)) \<noteq> Path (Mod S)"
    and "Path (Mod D) = Path (Mod S)"
    and "Version (Mod D) \<noteq> Version (Mod S)"
    and "nv (Version (Mod D)) = Some dv"
    and "nv (Version (Mod S)) = Some sv"
    and "canCompare dv sv"
    and "mergeRequires nv lt dest src False = (res, None)"
  shows "Require res ! i =
         D\<lparr>Mod := (Mod D)\<lparr>Version := (if lt sv dv then Version (Mod S) else Version (Mod D))\<rparr>\<rparr>"
proof -
  let ?D' = "D\<lparr>Mod := (Mod D)\<lparr>Version := (if lt sv dv then Version (Mod S) else Version (Mod D))\<rparr>\<rparr>"
  have "samePath nv lt False S D = Inr ?D'"
    using assms(8-11) by (simp add: samePath_eq)
  moreover have "requireLoop nv lt False (before @ S # after) (DropRequire (Path m) dest) = (res, None)"
    using assms(1,2,12) by (simp add: mergeRequires_def)
  ultimately show ?thesis
    using assms(3-8) by (intro requireLoop_first [where S = S and dst = "DropRequire (Path m) dest"]) auto
qed


lemma mergeRequires_first_mismatch:
  assumes "Module src = Some m"
    and "Require src = before @ S # after"
    and "\<forall>s \<in> set before \<union> set after. Path (Mod s) \<noteq> Path (Mod S)"
    and "i < length (Require (DropRequire (Path m) dest))"
    and "Require (DropRequire (Path m) dest) ! i = D"
    and "\<forall>j<i. Path (Mod (Require (DropRequire (Path m) dest) ! j)) \<noteq> Path (Mod S)"
    and "Path (Mod D) = Path (Mod S)"
    and "Version (Mod D) \<noteq> Version (Mod S)"
    and "nv (Version (Mod D)) = Some dv"
    and "nv (Version (Mod S)) = Some sv"
  shows "(\<not> canCompare dv sv \<longrightarrow>
            snd (mergeRequires nv lt dest src False) \<noteq> None \<and>
            (\<forall>mid. mergeRequires nv lt dest (src\<lparr>Require := before\<rparr>) False = (mid, None) \<longrightarrow>
               mergeRequires nv lt dest src False = (mid, Some (CannotReconcile (Mod D) (Mod S))))) \<and>
         (\<forall>res. mergeRequires nv lt dest src True = (res, None) \<longrightarrow>
            Require res ! i = D\<lparr>Mod := (Mod D)\<lparr>Version := Version (Mod S)\<rparr>\<rparr>) \<and>
         (\<forall>a b. snd (mergeRequires nv lt dest src True) \<noteq> Some (CannotReconcile a b))"
proof (intro conjI impI allI)
  let ?dst = "DropRequire (Path m) dest"
  have before: "\<forall>s \<in> set before. Path (Mod s) \<noteq> Path (Mod S)"
    using assms(3) by auto
  {
    assume nc: "\<not> canCompare dv sv"
    have err: "samePath nv lt False S (Require ?dst ! i) = Inl (CannotReconcile (Mod D) (Mod S))"
      using assms(5,8-10) nc by (simp add: samePath_eq)
    {
      fix mid
      assume "mergeRequires nv lt dest (src\<lparr>Require := before\<rparr>) False = (mid, None)"
      then have "requireLoop nv lt False before ?dst = (mid, None)"
        using assms(1) by (simp add: mergeRequires_def)
      from requireLoop_first_error [OF this before assms(4,6) _ _ err, of after]
      show "mergeRequires nv lt dest src False = (mid, Some (CannotReconcile (Mod D) (Mod S)))"
        using assms(1,2,5,7,8) by (simp add: mergeRequires_def)
    } note named = this
    show "snd (mergeRequires nv lt dest src False) \<noteq> None"
    proof (cases "requireLoop nv lt False before ?dst")
      case (Pair d1 e1)
      show ?thesis
      proof (cases e1)
        case None
        with Pair have "mergeRequires nv lt dest (src\<lparr>Require := before\<rparr>) False = (d1, None)"
          using assms(1) by (simp add: mergeRequires_def)
        from named [OF this] show ?thesis by simp
      next
        case (Some e)
        with Pair show ?thesis
          using assms(1,2) by (simp add: mergeRequires_def requireLoop_append)
      qed
    qed
  }
  {
    fix res
    assume ok: "mergeRequires nv lt dest src True = (res, None)"
    have "samePath nv lt True S (Require ?dst ! i) = Inr (D\<lparr>Mod := (Mod D)\<lparr>Version := Version (Mod S)\<rparr>\<rparr>)"
      using assms(5,8-10) by (simp add: samePath_eq)
    moreover have "requireLoop nv lt True (before @ S # after) ?dst = (res, None)"
      using assms(1,2) ok by (simp add: mergeRequires_def)
    ultimately show "Require res ! i = D\<lparr>Mod := (Mod D)\<lparr>Version := Version (Mod S)\<rparr>\<rparr>"
      using assms(3-8) by (intro requireLoop_first [where S = S and dst = ?dst]) auto
  }
  {
    fix a b
    show "snd (mergeRequires nv lt dest src True) \<noteq> Some (CannotReconcile a b)"
      using assms(1) requireLoop_force [of nv lt "Require src" ?dst a b]
      by (simp add: mergeRequires_def)
  }
qed


section \<open>Any destination entry that the scan reaches (C4, C5)\<close>

text \<open>
  A scan that has passed a stretch of the list without a match and without an error
  goes on with the rest.
\<close>

lemma scanRequire_pass:
  "scanRequire nv lt f S xs = (xs', False, None) \<Longrightarrow>
   scanRequire nv lt f S (xs @ ys) =
     (case scanRequire nv lt f S ys of (ys', found, err) \<Rightarrow> (xs' @ ys', found, err))"
proof (induction xs arbitrary: xs')
  case Nil
  then show ?case by (auto split: prod.splits)
next
  case (Cons d xs)
  show ?case
  proof (cases "String_eq (Mod S) (Mod d)")
    case True
    with Cons.prems show ?thesis by simp
  next
    case ne: False
    show ?thesis
    proof (cases "Path (Mod S) = Path (Mod d)")
      case True
      from Cons.prems ne True obtain d' rest' where
        sp: "samePath nv lt f S d = Inr d'" and sc: "scanRequire nv lt f S xs = (rest', False, None)"
        and xs': "xs' = d' # rest'"
        by (auto split: sum.splits prod.splits)
      from Cons.IH [OF sc] sp ne True xs' show ?thesis
        by (auto split: prod.splits)
    next
      case False
      from Cons.prems ne False obtain rest' where
        sc: "scanRequire nv lt f S xs = (rest', False, None)" and xs': "xs' = d # rest'"
        by (auto split: prod.splits)
      from Cons.IH [OF sc] ne False xs' show ?thesis
        by (auto split: prod.splits)
    qed
  qed
qed

lemma scanRequire_reach:
  assumes reach: "scanRequire nv lt f S (take i ds) = (seen, False, None)"
    and i: "i < length ds"
    and path: "Path (Mod (ds ! i)) = Path (Mod S)"
    and vers: "Version (Mod (ds ! i)) \<noteq> Version (Mod S)"
  shows "samePath nv lt f S (ds ! i) = Inr D' \<longrightarrow> fst (scanRequire nv lt f S ds) ! i = D'"
    and "samePath nv lt f S (ds ! i) = Inl e \<longrightarrow>
           scanRequire nv lt f S ds = (seen @ drop i ds, False, Some e)"
proof -
  have len: "length seen = i"
    using scanRequire_length [of nv lt f S "take i ds"] reach i by simp
  have split: "ds = take i ds @ ds ! i # drop (Suc i) ds"
    using i by (simp add: id_take_nth_drop)
  have ne: "\<not> String_eq (Mod S) (Mod (ds ! i))"
    using vers by (auto simp: String_eq_def)
  have whole: "scanRequire nv lt f S ds =
      (case scanRequire nv lt f S (ds ! i # drop (Suc i) ds) of
         (ys', found, err) \<Rightarrow> (seen @ ys', found, err))"
    using scanRequire_pass [OF reach, of "ds ! i # drop (Suc i) ds"] split by simp
  show "samePath nv lt f S (ds ! i) = Inr D' \<longrightarrow> fst (scanRequire nv lt f S ds) ! i = D'"
  proof
    assume "samePath nv lt f S (ds ! i) = Inr D'"
    with ne path have "\<exists>rest' found err.
        scanRequire nv lt f S (ds ! i # drop (Suc i) ds) = (D' # rest', found, err)"
      by (auto split: prod.splits)
    then obtain rest' found err where
      "scanRequire nv lt f S (ds ! i # drop (Suc i) ds) = (D' # rest', found, err)" by blast
    with whole have "fst (scanRequire nv lt f S ds) = seen @ D' # rest'" by simp
    with len show "fst (scanRequire nv lt f S ds) ! i = D'" by (simp add: nth_append)
  qed
  show "samePath nv lt f S (ds ! i) = Inl e \<longrightarrow>
           scanRequire nv lt f S ds = (seen @ drop i ds, False, Some e)"
  proof
    assume "samePath nv lt f S (ds ! i) = Inl e"
    with ne path have "scanRequire nv lt f S (ds ! i # drop (Suc i) ds) =
        (ds ! i # drop (Suc i) ds, False, Some e)"
      by simp
    moreover have "ds ! i # drop (Suc i) ds = drop i ds"
      using i by (simp add: Cons_nth_drop_Suc)
    ultimately show "scanRequire nv lt f S ds = (seen @ drop i ds, False, Some e)"
      using whole by simp
  qed
qed

text \<open>The pass over a source list, from the pass over the entries before \<open>S\<close>.\<close>

lemma mergeRequires_split:
  assumes "mergeRequires nv lt dest (src\<lparr>Require := before\<rparr>) f = (mid, None)"
  shows "mergeRequires nv lt dest (src\<lparr>Require := before @ S # after\<rparr>) f =
           (case requireEntry nv lt f S mid of
              (d, Some err) \<Rightarrow> (d, Some err)
            | (d, None) \<Rightarrow> requireLoop nv lt f after d)"
  using assms
  by (cases "Module src") (auto simp: mergeRequires_def requireLoop_append split: prod.splits option.splits)

lemma mergeRequires_reach:
  assumes mid: "mergeRequires nv lt dest (src\<lparr>Require := before\<rparr>) f = (mid, None)"
    and i: "i < length (Require mid)"
    and reach: "scanRequire nv lt f S (take i (Require mid)) = (seen, False, None)"
    and path: "Path (Mod (Require mid ! i)) = Path (Mod S)"
    and vers: "Version (Mod (Require mid ! i)) \<noteq> Version (Mod S)"
  shows "samePath nv lt f S (Require mid ! i) = Inr D' \<longrightarrow>
           Require (fst (mergeRequires nv lt dest (src\<lparr>Require := before @ [S]\<rparr>) f)) ! i = D' \<and>
           ((\<forall>s \<in> set after. Path (Mod s) \<noteq> Path (Mod S)) \<longrightarrow>
             Require (fst (mergeRequires nv lt dest (src\<lparr>Require := before @ S # after\<rparr>) f)) ! i = D')"
    and "samePath nv lt f S (Require mid ! i) = Inl e \<longrightarrow>
           mergeRequires nv lt dest (src\<lparr>Require := before @ S # after\<rparr>) f =
             (mid\<lparr>Require := seen @ drop i (Require mid)\<rparr>, Some e)"
proof -
  show "samePath nv lt f S (Require mid ! i) = Inr D' \<longrightarrow>
           Require (fst (mergeRequires nv lt dest (src\<lparr>Require := before @ [S]\<rparr>) f)) ! i = D' \<and>
           ((\<forall>s \<in> set after. Path (Mod s) \<noteq> Path (Mod S)) \<longrightarrow>
             Require (fst (mergeRequires nv lt dest (src\<lparr>Require := before @ S # after\<rparr>) f)) ! i = D')"
  proof (intro impI conjI)
    assume sp: "samePath nv lt f S (Require mid ! i) = Inr D'"
    let ?d2 = "fst (requireEntry nv lt f S mid)"
    from scanRequire_reach(1) [OF reach i path vers] sp
    have "fst (scanRequire nv lt f S (Require mid)) ! i = D'" by blast
    then have D2: "Require ?d2 ! i = D'"
      using requireEntry_nth [OF i, of nv lt f S] by simp
    have i2: "i < length (Require ?d2)"
      using i requireEntry_length [of mid nv lt f S] by simp
    have step: "\<And>rest. fst (mergeRequires nv lt dest (src\<lparr>Require := before @ S # rest\<rparr>) f) =
        (case requireEntry nv lt f S mid of
           (d, Some err) \<Rightarrow> d | (d, None) \<Rightarrow> fst (requireLoop nv lt f rest d))"
      by (simp add: mergeRequires_split [OF mid] split: prod.splits option.splits)
    show "Require (fst (mergeRequires nv lt dest (src\<lparr>Require := before @ [S]\<rparr>) f)) ! i = D'"
      using D2 by (auto simp: step split: prod.splits option.splits)
    assume "\<forall>s \<in> set after. Path (Mod s) \<noteq> Path (Mod S)"
    then have "Path (Mod (Require ?d2 ! i)) \<notin> (\<lambda>s. Path (Mod s)) ` set after"
      using D2 samePath_Path [OF sp] path by auto
    from requireLoop_other [OF i2 this, of nv lt f] D2
    have "Require (fst (requireLoop nv lt f after ?d2)) ! i = D'" by simp
    with D2 show "Require (fst (mergeRequires nv lt dest (src\<lparr>Require := before @ S # after\<rparr>) f)) ! i = D'"
      by (auto simp: step split: prod.splits option.splits)
  qed
  show "samePath nv lt f S (Require mid ! i) = Inl e \<longrightarrow>
           mergeRequires nv lt dest (src\<lparr>Require := before @ S # after\<rparr>) f =
             (mid\<lparr>Require := seen @ drop i (Require mid)\<rparr>, Some e)"
  proof
    assume "samePath nv lt f S (Require mid ! i) = Inl e"
    with scanRequire_reach(2) [OF reach i path vers]
    have "scanRequire nv lt f S (Require mid) = (seen @ drop i (Require mid), False, Some e)"
      by blast
    then have "requireEntry nv lt f S mid = (mid\<lparr>Require := seen @ drop i (Require mid)\<rparr>, Some e)"
      by (simp add: requireEntry_def)
    then show "mergeRequires nv lt dest (src\<lparr>Require := before @ S # after\<rparr>) f =
             (mid\<lparr>Require := seen @ drop i (Require mid)\<rparr>, Some e)"
      by (simp add: mergeRequires_split [OF mid])
  qed
qed

text \<open>
  C4, as amended. \<^verbatim>\<open>forceOverwrite\<close> is false. The source requirements before \<open>S\<close>
  have been merged without error and have left \<open>mid\<close>; \<open>D\<close> is the requirement at
  position \<open>i\<close> of \<open>mid\<close>, and the scan for \<open>S\<close> gets to it: over the entries
  before \<open>D\<close> it neither stops at an entry equal to \<open>S\<close> (line 100) nor returns an
  error (lines 106, 110, 117). \<open>S\<close> and \<open>D\<close> have the same path and two versions that
  differ, that both parse, and that are comparable. Then, once \<open>S\<close> is merged, position
  \<open>i\<close> holds \<open>D\<close> with the source's version if that is the lower one, and \<open>D\<close> as it
  was otherwise; and it still does at the end of the pass when no later source
  requirement has the path of \<open>S\<close>.
\<close>

theorem mergeRequires_lower_version:
  assumes "mergeRequires nv lt dest (src\<lparr>Require := before\<rparr>) False = (mid, None)"
    and "i < length (Require mid)"
    and "Require mid ! i = D"
    and "scanRequire nv lt False S (take i (Require mid)) = (seen, False, None)"
    and "Path (Mod D) = Path (Mod S)"
    and "Version (Mod D) \<noteq> Version (Mod S)"
    and "nv (Version (Mod D)) = Some dv"
    and "nv (Version (Mod S)) = Some sv"
    and "canCompare dv sv"
  shows "Require (fst (mergeRequires nv lt dest (src\<lparr>Require := before @ [S]\<rparr>) False)) ! i =
           D\<lparr>Mod := (Mod D)\<lparr>Version := (if lt sv dv then Version (Mod S) else Version (Mod D))\<rparr>\<rparr> \<and>
         ((\<forall>s \<in> set after. Path (Mod s) \<noteq> Path (Mod S)) \<longrightarrow>
            Require (fst (mergeRequires nv lt dest (src\<lparr>Require := before @ S # after\<rparr>) False)) ! i =
              D\<lparr>Mod := (Mod D)\<lparr>Version := (if lt sv dv then Version (Mod S) else Version (Mod D))\<rparr>\<rparr>)"
proof -
  have "samePath nv lt False S (Require mid ! i) =
      Inr (D\<lparr>Mod := (Mod D)\<lparr>Version := (if lt sv dv then Version (Mod S) else Version (Mod D))\<rparr>\<rparr>)"
    using assms(3,6-9) by (simp add: samePath_eq)
  with mergeRequires_reach(1) [OF assms(1,2,4), of "D\<lparr>Mod := (Mod D)\<lparr>Version := (if lt sv dv then Version (Mod S) else Version (Mod D))\<rparr>\<rparr>" after]
    assms(3,5,6)
  show ?thesis by blast
qed

theorem mergeRequires_lower_version_witness:
  "Require (fst (mergeRequires semver_NewVersion semver_LessThan
      (manifest ''dest'' [req ''src'' ''v0.9.0'' False, req ''pkg'' ''v1.3.0'' False,
         req ''pkg'' ''v1.2.0'' True] [] [])
      (manifest ''src'' [req ''new'' ''v0.1.0'' False, req ''pkg'' ''v1.1.0'' False,
         req ''late'' ''v2.0.0'' False] [] []) False)) ! 1 =
   req ''pkg'' ''v1.1.0'' True"
proof -
  let ?dest = "manifest ''dest'' [req ''src'' ''v0.9.0'' False, req ''pkg'' ''v1.3.0'' False,
         req ''pkg'' ''v1.2.0'' True] [] []"
  let ?src = "manifest ''src'' [req ''new'' ''v0.1.0'' False, req ''pkg'' ''v1.1.0'' False,
         req ''late'' ''v2.0.0'' False] [] []"
  let ?before = "[req ''new'' ''v0.1.0'' False]"
  let ?after = "[req ''late'' ''v2.0.0'' False]"
  let ?S = "req ''pkg'' ''v1.1.0'' False"
  let ?D = "req ''pkg'' ''v1.2.0'' True"
  let ?mid = "manifest ''dest'' [req ''pkg'' ''v1.3.0'' False, req ''pkg'' ''v1.2.0'' True,
         req ''new'' ''v0.1.0'' False] [] []"
  let ?dv = "\<lparr>major = 1, minor = 2, patch = 0, pre = [], metadata = []\<rparr>"
  let ?sv = "\<lparr>major = 1, minor = 1, patch = 0, pre = [], metadata = []\<rparr>"
  have h1: "mergeRequires semver_NewVersion semver_LessThan ?dest (?src\<lparr>Require := ?before\<rparr>) False =
      (?mid, None)"
    by (simp add: eval_defs)
  have h2: "1 < length (Require ?mid)" by simp
  have h3: "Require ?mid ! 1 = ?D" by simp
  have h4: "scanRequire semver_NewVersion semver_LessThan False ?S (take 1 (Require ?mid)) =
      ([req ''pkg'' ''v1.1.0'' False], False, None)"
    by (simp add: eval_defs)
  have h5: "Path (Mod ?D) = Path (Mod ?S)" by simp
  have h6: "Version (Mod ?D) \<noteq> Version (Mod ?S)" by simp
  have h7: "semver_NewVersion (Version (Mod ?D)) = Some ?dv" by (simp add: eval_defs)
  have h8: "semver_NewVersion (Version (Mod ?S)) = Some ?sv" by (simp add: eval_defs)
  have h9: "canCompare ?dv ?sv" by (simp add: eval_defs)
  note inst = mergeRequires_lower_version [OF h1 h2 h3 h4 h5 h6 h7 h8 h9, of ?after]
  have "\<forall>s \<in> set ?after. Path (Mod s) \<noteq> Path (Mod ?S)" by simp
  with inst have "Require (fst (mergeRequires semver_NewVersion semver_LessThan ?dest
      (?src\<lparr>Require := ?before @ ?S # ?after\<rparr>) False)) ! 1 =
    ?D\<lparr>Mod := (Mod ?D)\<lparr>Version :=
      (if semver_LessThan ?sv ?dv then Version (Mod ?S) else Version (Mod ?D))\<rparr>\<rparr>"
    by blast
  then show ?thesis by (simp add: semver_LessThan_def)
qed

text \<open>
  C4 as stated fails in four ways, all with plain releases or one pseudo-version and
  without \<^verbatim>\<open>forceOverwrite\<close>. An entry equal to the source's stands before the
  matching entry: the scan stops there (line 100) and \<^verbatim>\<open>pkg v1.2.0\<close> keeps its version.
  An entry that cannot be compared with the source's stands before it: the pass aborts
  (line 117) and \<^verbatim>\<open>pkg v1.2.0\<close> keeps its version. An earlier source requirement
  aborts the pass. A later source requirement with the same path lowers the version
  once more.
\<close>

theorem mergeRequires_lower_version_counterexample:
  "mergeRequires semver_NewVersion semver_LessThan
     (manifest ''dest'' [req ''pkg'' ''v1.1.0'' False, req ''pkg'' ''v1.2.0'' False] [] [])
     (manifest ''src'' [req ''pkg'' ''v1.1.0'' False] [] []) False =
   (manifest ''dest'' [req ''pkg'' ''v1.1.0'' False, req ''pkg'' ''v1.2.0'' False] [] [], None) \<and>
   mergeRequires semver_NewVersion semver_LessThan
     (manifest ''dest'' [req ''pkg'' ''v0.0.0-20190101000000-abcdef000000'' False,
        req ''pkg'' ''v1.2.0'' False] [] [])
     (manifest ''src'' [req ''pkg'' ''v1.1.0'' False] [] []) False =
   (manifest ''dest'' [req ''pkg'' ''v0.0.0-20190101000000-abcdef000000'' False,
      req ''pkg'' ''v1.2.0'' False] [] [],
    Some (CannotReconcile \<lparr>Path = ''pkg'', Version = ''v0.0.0-20190101000000-abcdef000000''\<rparr>
            \<lparr>Path = ''pkg'', Version = ''v1.1.0''\<rparr>)) \<and>
   mergeRequires semver_NewVersion semver_LessThan
     (manifest ''dest'' [req ''other'' ''v1.0.0'' False, req ''pkg'' ''v1.2.0'' False] [] [])
     (manifest ''src'' [req ''other'' ''v0.0.0-20190101000000-abcdef000000'' False,
        req ''pkg'' ''v1.1.0'' False] [] []) False =
   (manifest ''dest'' [req ''other'' ''v1.0.0'' False, req ''pkg'' ''v1.2.0'' False] [] [],
    Some (CannotReconcile \<lparr>Path = ''other'', Version = ''v1.0.0''\<rparr>
            \<lparr>Path = ''other'', Version = ''v0.0.0-20190101000000-abcdef000000''\<rparr>)) \<and>
   Require (fst (mergeRequires semver_NewVersion semver_LessThan
     (manifest ''dest'' [req ''pkg'' ''v1.2.0'' False] [] [])
     (manifest ''src'' [req ''pkg'' ''v1.1.0'' False, req ''pkg'' ''v1.0.0'' False] [] []) False)) ! 0 =
   req ''pkg'' ''v1.0.0'' False"
  by (simp add: eval_defs)

text \<open>
  C5, as amended. With \<open>mid\<close>, \<open>i\<close>, \<open>D\<close> and \<open>S\<close> as in C4 (the earlier source
  requirements merged without error, the scan for \<open>S\<close> gets to \<open>D\<close>, under the same
  \<^verbatim>\<open>forceOverwrite\<close>), same path, two versions that differ and both parse. Without
  \<^verbatim>\<open>forceOverwrite\<close>, when the versions are not comparable the pass returns the error
  of line 117 with the coordinates of \<open>D\<close> and \<open>S\<close>. With \<^verbatim>\<open>forceOverwrite\<close>,
  once \<open>S\<close> is merged position \<open>i\<close> holds \<open>D\<close> with the version of \<open>S\<close>, and it
  still does at the end of the pass when no later source requirement has the path of
  \<open>S\<close>. With \<^verbatim>\<open>forceOverwrite\<close> the pass never returns the error of line 117.
\<close>

theorem mergeRequires_mismatch:
  assumes "mergeRequires nv lt dest (src\<lparr>Require := before\<rparr>) forceOverwrite = (mid, None)"
    and "i < length (Require mid)"
    and "Require mid ! i = D"
    and "scanRequire nv lt forceOverwrite S (take i (Require mid)) = (seen, False, None)"
    and "Path (Mod D) = Path (Mod S)"
    and "Version (Mod D) \<noteq> Version (Mod S)"
    and "nv (Version (Mod D)) = Some dv"
    and "nv (Version (Mod S)) = Some sv"
  shows "(\<not> forceOverwrite \<and> \<not> canCompare dv sv \<longrightarrow>
            snd (mergeRequires nv lt dest (src\<lparr>Require := before @ S # after\<rparr>) forceOverwrite) =
              Some (CannotReconcile (Mod D) (Mod S))) \<and>
         (forceOverwrite \<longrightarrow>
            Require (fst (mergeRequires nv lt dest (src\<lparr>Require := before @ [S]\<rparr>) forceOverwrite)) ! i =
              D\<lparr>Mod := (Mod D)\<lparr>Version := Version (Mod S)\<rparr>\<rparr> \<and>
            ((\<forall>s \<in> set after. Path (Mod s) \<noteq> Path (Mod S)) \<longrightarrow>
               Require (fst (mergeRequires nv lt dest (src\<lparr>Require := before @ S # after\<rparr>)
                  forceOverwrite)) ! i =
                 D\<lparr>Mod := (Mod D)\<lparr>Version := Version (Mod S)\<rparr>\<rparr>)) \<and>
         (\<forall>a b. snd (mergeRequires nv lt dest (src\<lparr>Require := before @ S # after\<rparr>) True) \<noteq>
            Some (CannotReconcile a b))"
proof (intro conjI impI allI)
  assume "\<not> forceOverwrite \<and> \<not> canCompare dv sv"
  then have "samePath nv lt forceOverwrite S (Require mid ! i) = Inl (CannotReconcile (Mod D) (Mod S))"
    using assms(3,6-8) by (simp add: samePath_eq)
  with mergeRequires_reach(2) [OF assms(1,2,4), of "CannotReconcile (Mod D) (Mod S)" after] assms(3,5,6)
  show "snd (mergeRequires nv lt dest (src\<lparr>Require := before @ S # after\<rparr>) forceOverwrite) =
      Some (CannotReconcile (Mod D) (Mod S))"
    by simp
next
  assume force: forceOverwrite
  then have sp: "samePath nv lt forceOverwrite S (Require mid ! i) =
      Inr (D\<lparr>Mod := (Mod D)\<lparr>Version := Version (Mod S)\<rparr>\<rparr>)"
    using assms(3,6-8) by (simp add: samePath_eq)
  note reach = mergeRequires_reach(1) [OF assms(1,2,4),
      of "D\<lparr>Mod := (Mod D)\<lparr>Version := Version (Mod S)\<rparr>\<rparr>" after]
  from reach sp assms(3,5,6)
  show "Require (fst (mergeRequires nv lt dest (src\<lparr>Require := before @ [S]\<rparr>) forceOverwrite)) ! i =
      D\<lparr>Mod := (Mod D)\<lparr>Version := Version (Mod S)\<rparr>\<rparr>"
    by blast
  assume "\<forall>s \<in> set after. Path (Mod s) \<noteq> Path (Mod S)"
  with reach sp assms(3,5,6)
  show "Require (fst (mergeRequires nv lt dest (src\<lparr>Require := before @ S # after\<rparr>)
      forceOverwrite)) ! i = D\<lparr>Mod := (Mod D)\<lparr>Version := Version (Mod S)\<rparr>\<rparr>"
    by blast
next
  fix a b
  show "snd (mergeRequires nv lt dest (src\<lparr>Require := before @ S # after\<rparr>) True) \<noteq>
      Some (CannotReconcile a b)"
  proof (cases "Module src")
    case None
    then show ?thesis by (simp add: mergeRequires_def)
  next
    case (Some m')
    then show ?thesis
      using requireLoop_force [of nv lt "before @ S # after" "DropRequire (Path m') dest" a b]
      by (simp add: mergeRequires_def)
  qed
qed

theorem mergeRequires_mismatch_witness:
  "snd (mergeRequires semver_NewVersion semver_LessThan
      (manifest ''dest'' [req ''pkg'' ''v0.0.0-20180101000000-0123456789ab'' False,
         req ''pkg'' ''v1.2.0'' True] [] [])
      (manifest ''src'' [req ''pkg'' ''v0.0.0-20190101000000-abcdef000000'' False,
         req ''late'' ''v2.0.0'' False] [] []) False) =
     Some (CannotReconcile \<lparr>Path = ''pkg'', Version = ''v1.2.0''\<rparr>
       \<lparr>Path = ''pkg'', Version = ''v0.0.0-20190101000000-abcdef000000''\<rparr>) \<and>
   Require (fst (mergeRequires semver_NewVersion semver_LessThan
      (manifest ''dest'' [req ''pkg'' ''v0.0.0-20180101000000-0123456789ab'' False,
         req ''pkg'' ''v1.2.0'' True] [] [])
      (manifest ''src'' [req ''pkg'' ''v0.0.0-20190101000000-abcdef000000'' False,
         req ''late'' ''v2.0.0'' False] [] []) True)) ! 1 =
     req ''pkg'' ''v0.0.0-20190101000000-abcdef000000'' True \<and>
   (\<forall>a b. snd (mergeRequires semver_NewVersion semver_LessThan
      (manifest ''dest'' [req ''pkg'' ''v0.0.0-20180101000000-0123456789ab'' False,
         req ''pkg'' ''v1.2.0'' True] [] [])
      (manifest ''src'' [req ''pkg'' ''v0.0.0-20190101000000-abcdef000000'' False,
         req ''late'' ''v2.0.0'' False] [] []) True) \<noteq> Some (CannotReconcile a b))"
proof -
  let ?dest = "manifest ''dest'' [req ''pkg'' ''v0.0.0-20180101000000-0123456789ab'' False,
         req ''pkg'' ''v1.2.0'' True] [] []"
  let ?src = "manifest ''src'' [req ''pkg'' ''v0.0.0-20190101000000-abcdef000000'' False,
         req ''late'' ''v2.0.0'' False] [] []"
  let ?after = "[req ''late'' ''v2.0.0'' False]"
  let ?S = "req ''pkg'' ''v0.0.0-20190101000000-abcdef000000'' False"
  let ?D = "req ''pkg'' ''v1.2.0'' True"
  let ?dv = "\<lparr>major = 1, minor = 2, patch = 0, pre = [], metadata = []\<rparr>"
  let ?sv = "\<lparr>major = 0, minor = 0, patch = 0, pre = ''20190101000000-abcdef000000'',
      metadata = []\<rparr>"
  have h1: "mergeRequires semver_NewVersion semver_LessThan ?dest (?src\<lparr>Require := []\<rparr>) force =
      (?dest, None)" for force
    by (simp add: eval_defs)
  have h2: "1 < length (Require ?dest)" by simp
  have h3: "Require ?dest ! 1 = ?D" by simp
  have h4: "scanRequire semver_NewVersion semver_LessThan False ?S (take 1 (Require ?dest)) =
      ([req ''pkg'' ''v0.0.0-20180101000000-0123456789ab'' False], False, None)"
    by (simp add: eval_defs)
  have h4': "scanRequire semver_NewVersion semver_LessThan True ?S (take 1 (Require ?dest)) =
      ([req ''pkg'' ''v0.0.0-20190101000000-abcdef000000'' False], False, None)"
    by (simp add: eval_defs)
  have h5: "Path (Mod ?D) = Path (Mod ?S)" by simp
  have h6: "Version (Mod ?D) \<noteq> Version (Mod ?S)" by simp
  have h7: "semver_NewVersion (Version (Mod ?D)) = Some ?dv" by (simp add: eval_defs)
  have h8: "semver_NewVersion (Version (Mod ?S)) = Some ?sv" by (simp add: eval_defs)
  have h9: "\<not> canCompare ?dv ?sv" by (simp add: eval_defs)
  have h10: "\<forall>s \<in> set ?after. Path (Mod s) \<noteq> Path (Mod ?S)" by simp
  note plain = mergeRequires_mismatch [OF h1 h2 h3 h4 h5 h6 h7 h8, of ?after]
  note forced = mergeRequires_mismatch [OF h1 h2 h3 h4' h5 h6 h7 h8, of ?after]
  from plain h9 have a: "snd (mergeRequires semver_NewVersion semver_LessThan ?dest
      (?src\<lparr>Require := [] @ ?S # ?after\<rparr>) False) = Some (CannotReconcile (Mod ?D) (Mod ?S))"
    by blast
  from forced h10 have b: "Require (fst (mergeRequires semver_NewVersion semver_LessThan ?dest
      (?src\<lparr>Require := [] @ ?S # ?after\<rparr>) True)) ! 1 = ?D\<lparr>Mod := (Mod ?D)\<lparr>Version := Version (Mod ?S)\<rparr>\<rparr>"
    by blast
  from forced have c: "\<forall>a b. snd (mergeRequires semver_NewVersion semver_LessThan ?dest
      (?src\<lparr>Require := [] @ ?S # ?after\<rparr>) True) \<noteq> Some (CannotReconcile a b)"
    by blast
  from a b c show ?thesis by simp
qed

text \<open>
  C5 as stated fails in these ways. An entry equal to the source's stands before the
  entry \<^verbatim>\<open>pkg v1.2.0\<close>, whose version cannot be compared with the source's: the scan
  stops there (line 100), so that without \<^verbatim>\<open>forceOverwrite\<close> no error is returned and
  with it \<^verbatim>\<open>pkg v1.2.0\<close> keeps its version. Another entry with the path stands before
  it: the error names that entry. An earlier source requirement aborts the pass: the
  error names its coordinates. With \<^verbatim>\<open>forceOverwrite\<close>, a later source requirement
  with the same path sets the version once more.
\<close>

theorem mergeRequires_mismatch_counterexample:
  "mergeRequires semver_NewVersion semver_LessThan
     (manifest ''dest'' [req ''pkg'' ''v0.0.0-20190101000000-abcdef000000'' False,
        req ''pkg'' ''v1.2.0'' False] [] [])
     (manifest ''src'' [req ''pkg'' ''v0.0.0-20190101000000-abcdef000000'' False] [] []) False =
   (manifest ''dest'' [req ''pkg'' ''v0.0.0-20190101000000-abcdef000000'' False,
      req ''pkg'' ''v1.2.0'' False] [] [], None) \<and>
   mergeRequires semver_NewVersion semver_LessThan
     (manifest ''dest'' [req ''pkg'' ''v0.0.0-20190101000000-abcdef000000'' False,
        req ''pkg'' ''v1.2.0'' False] [] [])
     (manifest ''src'' [req ''pkg'' ''v0.0.0-20190101000000-abcdef000000'' False] [] []) True =
   (manifest ''dest'' [req ''pkg'' ''v0.0.0-20190101000000-abcdef000000'' False,
      req ''pkg'' ''v1.2.0'' False] [] [], None) \<and>
   mergeRequires semver_NewVersion semver_LessThan
     (manifest ''dest'' [req ''pkg'' ''v1.3.0'' False, req ''pkg'' ''v1.2.0'' False] [] [])
     (manifest ''src'' [req ''pkg'' ''v0.0.0-20190101000000-abcdef000000'' False] [] []) False =
   (manifest ''dest'' [req ''pkg'' ''v1.3.0'' False, req ''pkg'' ''v1.2.0'' False] [] [],
    Some (CannotReconcile \<lparr>Path = ''pkg'', Version = ''v1.3.0''\<rparr>
            \<lparr>Path = ''pkg'', Version = ''v0.0.0-20190101000000-abcdef000000''\<rparr>)) \<and>
   mergeRequires semver_NewVersion semver_LessThan
     (manifest ''dest'' [req ''other'' ''v1.0.0'' False, req ''pkg'' ''v1.2.0'' False] [] [])
     (manifest ''src'' [req ''other'' ''v0.0.0-20190101000000-abcdef000000'' False,
        req ''pkg'' ''v0.0.0-20190101000000-abcdef000000'' False] [] []) False =
   (manifest ''dest'' [req ''other'' ''v1.0.0'' False, req ''pkg'' ''v1.2.0'' False] [] [],
    Some (CannotReconcile \<lparr>Path = ''other'', Version = ''v1.0.0''\<rparr>
            \<lparr>Path = ''other'', Version = ''v0.0.0-20190101000000-abcdef000000''\<rparr>)) \<and>
   Require (fst (mergeRequires semver_NewVersion semver_LessThan
     (manifest ''dest'' [req ''pkg'' ''v1.2.0'' False] [] [])
     (manifest ''src'' [req ''pkg'' ''v0.0.0-20190101000000-abcdef000000'' False,
        req ''pkg'' ''v1.0.0'' False] [] []) True)) ! 0 =
   req ''pkg'' ''v1.0.0'' False"
  by (simp add: eval_defs)

section \<open>The replacement pass and the sequence of the passes\<close>

lemma Replace_eq_iff: "(r::Replace) = r' \<longleftrightarrow> Old r = Old r' \<and> New r = New r'"
  by (cases r, cases r') auto

lemma module_Version_eq_iff: "(a::module_Version) = b \<longleftrightarrow> Path a = Path b \<and> Version a = Version b"
  by (cases a, cases b) auto

text \<open>Lines 151 to 160 remove the directives whose old path is the source module path.\<close>

lemma fold_DropReplace:
  "fold (\<lambda>v d. DropReplace (Path v) (Version v) d) vs dest =
   dest\<lparr>Replace := filter (\<lambda>r. Old r \<notin> set vs) (Replace dest)\<rparr>"
proof (induction vs arbitrary: dest)
  case Nil
  then show ?case by simp
next
  case (Cons v vs)
  let ?d1 = "DropReplace (Path v) (Version v) dest"
  have "fold (\<lambda>v d. DropReplace (Path v) (Version v) d) (v # vs) dest =
        fold (\<lambda>v d. DropReplace (Path v) (Version v) d) vs ?d1"
    by simp
  also have "\<dots> = ?d1\<lparr>Replace := filter (\<lambda>r. Old r \<notin> set vs) (Replace ?d1)\<rparr>"
    by (rule Cons.IH)
  also have "\<dots> = dest\<lparr>Replace := filter (\<lambda>r. Old r \<notin> set (v # vs)) (Replace dest)\<rparr>"
    by (auto simp: DropReplace_def module_Version_eq_iff intro: filter_cong)
  finally show ?case .
qed

lemma drop_self_replace:
  "fold (\<lambda>v d. DropReplace (Path v) (Version v) d) (dropVersions p dest) dest =
   dest\<lparr>Replace := filter (\<lambda>r. Path (Old r) \<noteq> p) (Replace dest)\<rparr>"
proof -
  have "filter (\<lambda>r. Old r \<notin> set (dropVersions p dest)) (Replace dest) =
        filter (\<lambda>r. Path (Old r) \<noteq> p) (Replace dest)"
    by (rule filter_cong) (auto simp: dropVersions_def)
  then show ?thesis by (simp add: fold_DropReplace)
qed

lemma mergeReplacements_eq:
  assumes "Module src = Some m"
  shows "mergeReplacements dest src =
         replaceLoop (Replace src) (dest\<lparr>Replace := filter (\<lambda>r. Path (Old r) \<noteq> Path m) (Replace dest)\<rparr>)"
  using assms by (simp add: mergeReplacements_def drop_self_replace)

lemma scanReplace_eq: "scanReplace S ds = (Old S \<in> Old ` set ds, None)"
  by (induction ds) (auto simp: String_eq_iff module_Version_eq_iff)

lemma AddReplace_eq:
  "AddReplace (Path (Old S)) (Version (Old S)) (Path (New S)) (Version (New S)) dest =
   dest\<lparr>Replace := Replace dest @ [S]\<rparr>"
  by (simp add: AddReplace_def Replace_eq_iff)

lemma replaceLoop_Cons:
  "replaceLoop (S # srcs) dest =
   replaceLoop srcs (if Old S \<in> Old ` set (Replace dest) then dest
                     else dest\<lparr>Replace := Replace dest @ [S]\<rparr>)"
  by (simp add: scanReplace_eq AddReplace_eq)

lemma replaceLoop_no_error: "snd (replaceLoop srcs dest) = None"
  by (induction srcs arbitrary: dest) (simp_all only: replaceLoop.simps(1) replaceLoop_Cons snd_conv)

text \<open>The replacement pass never returns the error of line 172.\<close>

lemma mergeReplacements_no_mismatch:
  "snd (mergeReplacements dest src) \<noteq> Some ReplaceMismatch"
  by (simp add: mergeReplacements_def replaceLoop_no_error)

lemma replaceLoop_rest:
  "Module (fst (replaceLoop srcs dest)) = Module dest \<and>
   Require (fst (replaceLoop srcs dest)) = Require dest \<and>
   Exclude (fst (replaceLoop srcs dest)) = Exclude dest"
proof (induction srcs arbitrary: dest)
  case Nil
  then show ?case by simp
next
  case (Cons S srcs)
  show ?case
    unfolding replaceLoop_Cons by (simp add: Cons.IH)
qed

lemma replaceLoop_Replace:
  "\<exists>app. Replace (fst (replaceLoop srcs dest)) = Replace dest @ app \<and> set app \<subseteq> set srcs \<and>
         distinct (map Old app) \<and> Old ` set app \<inter> Old ` set (Replace dest) = {}"
proof (induction srcs arbitrary: dest)
  case Nil
  then show ?case by simp
next
  case (Cons S srcs)
  show ?case
  proof (cases "Old S \<in> Old ` set (Replace dest)")
    case True
    from Cons.IH [of dest] obtain app where
      "Replace (fst (replaceLoop srcs dest)) = Replace dest @ app" "set app \<subseteq> set srcs"
      "distinct (map Old app)" "Old ` set app \<inter> Old ` set (Replace dest) = {}" by blast
    with True show ?thesis
      unfolding replaceLoop_Cons by (intro exI [of _ app]) auto
  next
    case False
    let ?d1 = "dest\<lparr>Replace := Replace dest @ [S]\<rparr>"
    from Cons.IH [of ?d1] obtain app where app:
      "Replace (fst (replaceLoop srcs ?d1)) = Replace ?d1 @ app" "set app \<subseteq> set srcs"
      "distinct (map Old app)" "Old ` set app \<inter> Old ` set (Replace ?d1) = {}" by blast
    have "Replace (fst (replaceLoop (S # srcs) dest)) = Replace dest @ (S # app)"
      using False app(1) unfolding replaceLoop_Cons by simp
    moreover have "set (S # app) \<subseteq> set (S # srcs)" using app(2) by auto
    moreover have "distinct (map Old (S # app))" using app(3,4) by auto
    moreover have "Old ` set (S # app) \<inter> Old ` set (Replace dest) = {}"
      using False app(4) by auto
    ultimately show ?thesis by blast
  qed
qed

lemma replaceLoop_distinct:
  assumes "distinct (map Old (Replace dest))"
  shows "distinct (map Old (Replace (fst (replaceLoop srcs dest))))"
proof -
  from replaceLoop_Replace [of srcs dest] obtain app where
    "Replace (fst (replaceLoop srcs dest)) = Replace dest @ app"
    "distinct (map Old app)" "Old ` set app \<inter> Old ` set (Replace dest) = {}" by blast
  with assms show ?thesis by auto
qed

lemma replaceLoop_old_paths:
  "(\<lambda>r. Path (Old r)) ` set (Replace (fst (replaceLoop srcs dest))) \<subseteq>
   (\<lambda>r. Path (Old r)) ` set (Replace dest) \<union> (\<lambda>r. Path (Old r)) ` set srcs"
proof -
  from replaceLoop_Replace [of srcs dest] obtain app where
    "Replace (fst (replaceLoop srcs dest)) = Replace dest @ app" "set app \<subseteq> set srcs" by blast
  then show ?thesis by auto
qed

text \<open>The paths of the requirements after the pass are destination paths or source paths.\<close>

lemma requireEntry_paths:
  "(\<lambda>d. Path (Mod d)) ` set (Require (fst (requireEntry nv lt f S dest))) \<subseteq>
   insert (Path (Mod S)) ((\<lambda>d. Path (Mod d)) ` set (Require dest))"
proof -
  obtain app where app: "Require (fst (requireEntry nv lt f S dest)) =
      fst (scanRequire nv lt f S (Require dest)) @ app" "set app \<subseteq> {S}"
    using requireEntry_Require [of nv lt f S dest] by blast
  have "(\<lambda>d. Path (Mod d)) ` set (fst (scanRequire nv lt f S (Require dest))) =
        set (map (\<lambda>d. Path (Mod d)) (fst (scanRequire nv lt f S (Require dest))))"
    by simp
  also have "\<dots> = (\<lambda>d. Path (Mod d)) ` set (Require dest)"
    by (simp only: scanRequire_paths) simp
  finally show ?thesis using app by auto
qed

lemma requireLoop_paths:
  "(\<lambda>d. Path (Mod d)) ` set (Require (fst (requireLoop nv lt f srcs dest))) \<subseteq>
   (\<lambda>d. Path (Mod d)) ` set (Require dest) \<union> (\<lambda>d. Path (Mod d)) ` set srcs"
proof (induction srcs arbitrary: dest)
  case Nil
  then show ?case by simp
next
  case (Cons S srcs)
  obtain d1 e1 where st: "requireEntry nv lt f S dest = (d1, e1)"
    by (cases "requireEntry nv lt f S dest") auto
  have one: "(\<lambda>d. Path (Mod d)) ` set (Require d1) \<subseteq>
             insert (Path (Mod S)) ((\<lambda>d. Path (Mod d)) ` set (Require dest))"
    using requireEntry_paths [of nv lt f S dest] st by simp
  show ?case
  proof (cases e1)
    case None
    then have "fst (requireLoop nv lt f (S # srcs) dest) = fst (requireLoop nv lt f srcs d1)"
      using st by simp
    then have "(\<lambda>d. Path (Mod d)) ` set (Require (fst (requireLoop nv lt f (S # srcs) dest))) =
               (\<lambda>d. Path (Mod d)) ` set (Require (fst (requireLoop nv lt f srcs d1)))"
      by simp
    also have "\<dots> \<subseteq> (\<lambda>d. Path (Mod d)) ` set (Require d1) \<union> (\<lambda>d. Path (Mod d)) ` set srcs"
      by (rule Cons.IH)
    also have "\<dots> \<subseteq> (\<lambda>d. Path (Mod d)) ` set (Require dest) \<union> (\<lambda>d. Path (Mod d)) ` set (S # srcs)"
      using one by auto
    finally show ?thesis .
  next
    case (Some e)
    then have "fst (requireLoop nv lt f (S # srcs) dest) = d1"
      using st by simp
    with one show ?thesis by auto
  qed
qed

text \<open>Each pass changes its own section only.\<close>

lemma mergeReplacements_rest:
  "Require (fst (mergeReplacements dest src)) = Require dest \<and>
   Exclude (fst (mergeReplacements dest src)) = Exclude dest \<and>
   Module (fst (mergeReplacements dest src)) = Module dest"
  by (cases "Module src") (auto simp: mergeReplacements_def replaceLoop_rest drop_self_replace)

lemma mergeRequires_rest:
  "Replace (fst (mergeRequires nv lt dest src f)) = Replace dest \<and>
   Exclude (fst (mergeRequires nv lt dest src f)) = Exclude dest \<and>
   Module (fst (mergeRequires nv lt dest src f)) = Module dest"
  by (cases "Module src") (auto simp: mergeRequires_def requireLoop_rest DropRequire_def)

lemma run_passes:
  assumes "run nv lt dest src f = (res, None)"
  shows "\<exists>d1 d2. mergeRequires nv lt dest src f = (d1, None) \<and>
           mergeReplacements d1 src = (d2, None) \<and> mergeExcludes d2 src = (res, None)"
  using assms by (auto simp: run_def split: prod.splits option.splits)

lemma run_sections:
  assumes "run nv lt dest src f = (res, None)"
  shows "mergeRequires nv lt dest src f = (fst (mergeRequires nv lt dest src f), None) \<and>
         Require res = Require (fst (mergeRequires nv lt dest src f)) \<and>
         (\<exists>d1. Replace d1 = Replace dest \<and> mergeReplacements d1 src = (fst (mergeReplacements d1 src), None) \<and>
            Replace res = Replace (fst (mergeReplacements d1 src))) \<and>
         (\<exists>d2. Exclude d2 = Exclude dest \<and> Exclude res = Exclude (fst (mergeExcludes d2 src)))"
proof -
  from run_passes [OF assms] obtain d1 d2 where
    p: "mergeRequires nv lt dest src f = (d1, None)" "mergeReplacements d1 src = (d2, None)"
       "mergeExcludes d2 src = (res, None)" by blast
  have r1: "Replace d1 = Replace dest" "Exclude d1 = Exclude dest"
    using mergeRequires_rest [of nv lt dest src f] p(1) by simp_all
  have r2: "Require d2 = Require d1" "Exclude d2 = Exclude d1"
    using mergeReplacements_rest [of d1 src] p(2) by simp_all
  have r3: "Require res = Require d2" "Replace res = Replace d2"
    using excludeLoop_rest [of "Exclude src" d2] p(3) by (simp_all add: mergeExcludes_def)
  show ?thesis
    using p r1 r2 r3 by (auto intro: exI [of _ d1] exI [of _ d2])
qed

section \<open>Self-references and duplicates (C6, C2)\<close>

lemma Require_eq_iff: "(r::Require) = r' \<longleftrightarrow> Mod r = Mod r' \<and> Indirect r = Indirect r'"
  by (cases r, cases r') auto

lemma AddNewRequire_eq:
  "AddNewRequire (Path (Mod S)) (Version (Mod S)) (Indirect S) dest =
   dest\<lparr>Require := Require dest @ [S]\<rparr>"
  by (simp add: AddNewRequire_def Require_eq_iff module_Version_eq_iff)

text \<open>
  When every destination entry with the path of the source entry has its version too,
  the scan changes nothing; it finds the entry iff the path is there.
\<close>

lemma scanRequire_exact:
  assumes "\<forall>d \<in> set ds. Path (Mod d) = Path (Mod S) \<longrightarrow> Version (Mod d) = Version (Mod S)"
  shows "scanRequire nv lt f S ds = (ds, Path (Mod S) \<in> (\<lambda>d. Path (Mod d)) ` set ds, None)"
  using assms by (induction ds) (auto simp: String_eq_def)

lemma requireEntry_exact:
  assumes "\<forall>d \<in> set (Require dest). Path (Mod d) = Path (Mod S) \<longrightarrow> Version (Mod d) = Version (Mod S)"
  shows "requireEntry nv lt f S dest =
         (if Path (Mod S) \<in> (\<lambda>d. Path (Mod d)) ` set (Require dest) then dest
          else dest\<lparr>Require := Require dest @ [S]\<rparr>, None)"
  by (simp add: requireEntry_def scanRequire_exact [OF assms] AddNewRequire_eq)

lemma requireLoop_exact:
  assumes "distinct (map (\<lambda>s. Path (Mod s)) srcs)"
    and "distinct (map (\<lambda>d. Path (Mod d)) (Require dest))"
    and "\<forall>s \<in> set srcs. \<forall>d \<in> set (Require dest).
           Path (Mod s) = Path (Mod d) \<longrightarrow> Version (Mod s) = Version (Mod d)"
  shows "snd (requireLoop nv lt f srcs dest) = None \<and>
         distinct (map (\<lambda>d. Path (Mod d)) (Require (fst (requireLoop nv lt f srcs dest))))"
  using assms
proof (induction srcs arbitrary: dest)
  case Nil
  then show ?case by simp
next
  case (Cons S srcs)
  let ?d1 = "if Path (Mod S) \<in> (\<lambda>d. Path (Mod d)) ` set (Require dest) then dest
             else dest\<lparr>Require := Require dest @ [S]\<rparr>"
  have "\<forall>d \<in> set (Require dest). Path (Mod d) = Path (Mod S) \<longrightarrow> Version (Mod d) = Version (Mod S)"
    using Cons.prems(3) by auto
  then have st: "requireEntry nv lt f S dest = (?d1, None)"
    by (rule requireEntry_exact)
  have a: "distinct (map (\<lambda>s. Path (Mod s)) srcs)"
    using Cons.prems(1) by simp
  have b: "distinct (map (\<lambda>d. Path (Mod d)) (Require ?d1))"
    using Cons.prems(2) by auto
  have c: "\<forall>s \<in> set srcs. \<forall>d \<in> set (Require ?d1).
             Path (Mod s) = Path (Mod d) \<longrightarrow> Version (Mod s) = Version (Mod d)"
    using Cons.prems(1,3) by (fastforce simp: image_iff split: if_splits)
  from Cons.IH [OF a b c] st show ?case
    by simp
qed

text \<open>
  C6, as amended. The source lists no requirement with its own module path and no
  replace directive whose old path is its own module path. When the three passes
  return no error, no requirement of the result has the source's module path and no
  replace directive of the result has it as old path. When the destination has no
  such entry to begin with, merging a source that carries nothing but its module
  path returns the destination as it was, with no error.
\<close>

theorem run_no_self_reference:
  assumes "Module src = Some m"
    and "run nv lt dest src forceOverwrite = (res, None)"
    and "Path m \<notin> (\<lambda>s. Path (Mod s)) ` set (Require src)"
    and "Path m \<notin> (\<lambda>s. Path (Old s)) ` set (Replace src)"
  shows "Path m \<notin> (\<lambda>r. Path (Mod r)) ` set (Require res) \<and>
         Path m \<notin> (\<lambda>r. Path (Old r)) ` set (Replace res) \<and>
         (Path m \<notin> (\<lambda>r. Path (Mod r)) ` set (Require dest) \<and>
          Path m \<notin> (\<lambda>r. Path (Old r)) ` set (Replace dest) \<longrightarrow>
            run nv lt dest (src\<lparr>Require := [], Replace := [], Exclude := []\<rparr>) forceOverwrite =
            (dest, None))"
proof (intro conjI impI)
  note sec = run_sections [OF assms(2)]
  have "(\<lambda>r. Path (Mod r)) ` set (Require res) \<subseteq>
        (\<lambda>r. Path (Mod r)) ` set (Require (DropRequire (Path m) dest)) \<union>
        (\<lambda>r. Path (Mod r)) ` set (Require src)"
    using sec assms(1) requireLoop_paths [of nv lt forceOverwrite "Require src" "DropRequire (Path m) dest"]
    by (simp add: mergeRequires_def)
  moreover have "Path m \<notin> (\<lambda>r. Path (Mod r)) ` set (Require (DropRequire (Path m) dest))"
    by (auto simp: DropRequire_def)
  ultimately show "Path m \<notin> (\<lambda>r. Path (Mod r)) ` set (Require res)"
    using assms(3) by blast
next
  from run_sections [OF assms(2)] obtain d1 where
    d1: "Replace d1 = Replace dest" "Replace res = Replace (fst (mergeReplacements d1 src))"
    by blast
  let ?d = "d1\<lparr>Replace := filter (\<lambda>r. Path (Old r) \<noteq> Path m) (Replace d1)\<rparr>"
  have "(\<lambda>r. Path (Old r)) ` set (Replace res) \<subseteq>
        (\<lambda>r. Path (Old r)) ` set (Replace ?d) \<union> (\<lambda>r. Path (Old r)) ` set (Replace src)"
    using d1(2) replaceLoop_old_paths [of "Replace src" ?d]
    by (simp add: mergeReplacements_eq [OF assms(1)])
  moreover have "Path m \<notin> (\<lambda>r. Path (Old r)) ` set (Replace ?d)"
    by auto
  ultimately show "Path m \<notin> (\<lambda>r. Path (Old r)) ` set (Replace res)"
    using assms(4) by blast
next
  assume none: "Path m \<notin> (\<lambda>r. Path (Mod r)) ` set (Require dest) \<and>
                Path m \<notin> (\<lambda>r. Path (Old r)) ` set (Replace dest)"
  have "filter (\<lambda>r. Path (Mod r) \<noteq> Path m) (Require dest) = Require dest"
    using none by (fastforce simp: filter_id_conv image_iff)
  moreover have "filter (\<lambda>r. Path (Old r) \<noteq> Path m) (Replace dest) = Replace dest"
    using none by (fastforce simp: filter_id_conv image_iff)
  ultimately show "run nv lt dest (src\<lparr>Require := [], Replace := [], Exclude := []\<rparr>) forceOverwrite =
        (dest, None)"
    using assms(1)
    by (simp add: run_def mergeRequires_def DropRequire_def mergeReplacements_def drop_self_replace
        mergeExcludes_def)
qed

theorem run_no_self_reference_witness:
  "''src'' \<notin> (\<lambda>r. Path (Mod r)) ` set (Require (fst (run semver_NewVersion semver_LessThan
       (manifest ''dest'' [req ''src'' ''v1.0.0'' False, req ''pkg'' ''v1.2.0'' False]
          [repl ''src'' [] ''../src'' []] [])
       (manifest ''src'' [req ''pkg'' ''v1.1.0'' False] [repl ''pkg'' [] ''../pkg'' []] []) False))) \<and>
   ''src'' \<notin> (\<lambda>r. Path (Old r)) ` set (Replace (fst (run semver_NewVersion semver_LessThan
       (manifest ''dest'' [req ''src'' ''v1.0.0'' False, req ''pkg'' ''v1.2.0'' False]
          [repl ''src'' [] ''../src'' []] [])
       (manifest ''src'' [req ''pkg'' ''v1.1.0'' False] [repl ''pkg'' [] ''../pkg'' []] []) False))) \<and>
   run semver_NewVersion semver_LessThan
       (manifest ''dest'' [req ''pkg'' ''v1.2.0'' False] [] [])
       (manifest ''src'' [] [] []) False =
     (manifest ''dest'' [req ''pkg'' ''v1.2.0'' False] [] [], None)"
proof -
  let ?dest = "manifest ''dest'' [req ''src'' ''v1.0.0'' False, req ''pkg'' ''v1.2.0'' False]
          [repl ''src'' [] ''../src'' []] []"
  let ?src = "manifest ''src'' [req ''pkg'' ''v1.1.0'' False] [repl ''pkg'' [] ''../pkg'' []] []"
  let ?m = "\<lparr>Path = ''src'', Version = []\<rparr>"
  let ?res = "manifest ''dest'' [req ''pkg'' ''v1.1.0'' False, req ''pkg'' ''v1.1.0'' False]
          [repl ''pkg'' [] ''../pkg'' []] []"
  let ?plain = "manifest ''dest'' [req ''pkg'' ''v1.2.0'' False] [] []"
  have h1: "Module ?src = Some ?m" by simp
  have h2: "run semver_NewVersion semver_LessThan ?dest ?src False = (?res, None)"
    by (simp add: eval_defs)
  have h3: "Path ?m \<notin> (\<lambda>s. Path (Mod s)) ` set (Require ?src)" by simp
  have h4: "Path ?m \<notin> (\<lambda>s. Path (Old s)) ` set (Replace ?src)" by simp
  have g1: "run semver_NewVersion semver_LessThan ?plain ?src False =
      (manifest ''dest'' [req ''pkg'' ''v1.1.0'' False, req ''pkg'' ''v1.1.0'' False]
          [repl ''pkg'' [] ''../pkg'' []] [], None)"
    by (simp add: eval_defs)
  have none: "Path ?m \<notin> (\<lambda>r. Path (Mod r)) ` set (Require ?plain) \<and>
              Path ?m \<notin> (\<lambda>r. Path (Old r)) ` set (Replace ?plain)" by simp
  from run_no_self_reference [OF h1 h2 h3 h4]
  have "Path ?m \<notin> (\<lambda>r. Path (Mod r)) ` set (Require ?res)"
    and "Path ?m \<notin> (\<lambda>r. Path (Old r)) ` set (Replace ?res)" by blast+
  moreover from run_no_self_reference [OF h1 g1 h3 h4] none
  have "run semver_NewVersion semver_LessThan ?plain (?src\<lparr>Require := [], Replace := [], Exclude := []\<rparr>) False =
        (?plain, None)" by blast
  ultimately show ?thesis
    by (simp add: h2)
qed

text \<open>
  C6 as stated fails for a source that requires and replaces itself: the drop comes
  first, and the loops then add the source's own entries.
\<close>

theorem run_self_reference_counterexample:
  "snd (run semver_NewVersion semver_LessThan
      (manifest ''dest'' [] [] [])
      (manifest ''src'' [req ''src'' ''v1.0.0'' False] [repl ''src'' [] ''../src'' []] []) False) = None \<and>
   req ''src'' ''v1.0.0'' False \<in> set (Require (fst (run semver_NewVersion semver_LessThan
      (manifest ''dest'' [] [] [])
      (manifest ''src'' [req ''src'' ''v1.0.0'' False] [repl ''src'' [] ''../src'' []] []) False))) \<and>
   repl ''src'' [] ''../src'' [] \<in> set (Replace (fst (run semver_NewVersion semver_LessThan
      (manifest ''dest'' [] [] [])
      (manifest ''src'' [req ''src'' ''v1.0.0'' False] [repl ''src'' [] ''../src'' []] []) False)))"
  by (simp add: eval_defs)

text \<open>
  When the destination (once \<^verbatim>\<open>DropRequire\<close> has run) has no two requirements with
  the same path and no two replace directives with the same old coordinate, the source
  has no two requirements with the same path, and every source requirement whose path
  the destination has, has the destination's version, a run without error leaves no two
  requirements with the same path and no two replace directives with the same old
  coordinate.
\<close>

lemma run_distinct:
  assumes "Module src = Some m"
    and "run nv lt dest src forceOverwrite = (res, None)"
    and "distinct (map (\<lambda>r. Path (Mod r)) (Require (DropRequire (Path m) dest)))"
    and "distinct (map (\<lambda>s. Path (Mod s)) (Require src))"
    and "\<forall>s \<in> set (Require src). \<forall>d \<in> set (Require (DropRequire (Path m) dest)).
           Path (Mod s) = Path (Mod d) \<longrightarrow> Version (Mod s) = Version (Mod d)"
    and "distinct (map Old (Replace dest))"
  shows "distinct (map (\<lambda>r. Path (Mod r)) (Require res)) \<and> distinct (map Old (Replace res))"
proof
  have "Require res = Require (fst (requireLoop nv lt forceOverwrite (Require src) (DropRequire (Path m) dest)))"
    using run_sections [OF assms(2)] assms(1) by (simp add: mergeRequires_def)
  then show "distinct (map (\<lambda>r. Path (Mod r)) (Require res))"
    using requireLoop_exact [OF assms(4,3,5), of nv lt forceOverwrite] by simp
next
  from run_sections [OF assms(2)] obtain d1 where
    d1: "Replace d1 = Replace dest" "Replace res = Replace (fst (mergeReplacements d1 src))"
    by blast
  let ?d = "d1\<lparr>Replace := filter (\<lambda>r. Path (Old r) \<noteq> Path m) (Replace d1)\<rparr>"
  have "distinct (map Old (Replace ?d))"
    using assms(6) d1(1) by (simp add: distinct_map_filter)
  then have "distinct (map Old (Replace (fst (replaceLoop (Replace src) ?d))))"
    by (rule replaceLoop_distinct)
  then show "distinct (map Old (Replace res))"
    using d1(2) by (simp add: mergeReplacements_eq [OF assms(1)])
qed

text \<open>No pass removes a duplicate that the destination lists.\<close>

lemma run_keeps_duplicates:
  "run semver_NewVersion semver_LessThan
     (manifest ''dest'' [req ''pkg'' ''v1.0.0'' False, req ''pkg'' ''v1.1.0'' False] [] [])
     (manifest ''src'' [] [] []) False =
   (manifest ''dest'' [req ''pkg'' ''v1.0.0'' False, req ''pkg'' ''v1.1.0'' False] [] [], None) \<and>
   \<not> distinct (map (\<lambda>r. Path (Mod r)) (Require (fst (run semver_NewVersion semver_LessThan
     (manifest ''dest'' [req ''pkg'' ''v1.0.0'' False, req ''pkg'' ''v1.1.0'' False] [] [])
     (manifest ''src'' [] [] []) False))))"
  by (simp add: eval_defs)

text \<open>
  C2. The destination requires \<^verbatim>\<open>pkg v1.2.0\<close> and the source \<^verbatim>\<open>pkg v1.1.0\<close>: the claim
  updates the one matching entry and appends nothing, so that the result has one entry
  with the path. The run rewrites the destination entry (line 121) and then appends the
  source entry (line 134), \<^verbatim>\<open>found\<close> being set at line 99 only: it returns no error and
  a result with two requirements \<^verbatim>\<open>pkg v1.1.0\<close>.
\<close>

theorem run_appends_after_update:
  "run semver_NewVersion semver_LessThan
     (manifest ''dest'' [req ''pkg'' ''v1.2.0'' False] [] [])
     (manifest ''src'' [req ''pkg'' ''v1.1.0'' False] [] []) False =
   (manifest ''dest'' [req ''pkg'' ''v1.1.0'' False, req ''pkg'' ''v1.1.0'' False] [] [], None) \<and>
   \<not> distinct (map (\<lambda>r. Path (Mod r)) (Require (fst (run semver_NewVersion semver_LessThan
     (manifest ''dest'' [req ''pkg'' ''v1.2.0'' False] [] [])
     (manifest ''src'' [req ''pkg'' ''v1.1.0'' False] [] []) False))))"
  by (simp add: eval_defs)

section \<open>Merging a second time (C9)\<close>

text \<open>A second scan for the same source entry changes nothing more.\<close>

lemma scanRequire_again:
  "scanRequire nv lt f S ds = (rs, found, None) \<Longrightarrow>
   \<exists>found'. scanRequire nv lt f S rs = (rs, found', None) \<and> (found \<longrightarrow> found')"
proof (induction ds arbitrary: rs found)
  case Nil
  then show ?case by auto
next
  case (Cons d ds)
  show ?case
  proof (cases "String_eq (Mod S) (Mod d)")
    case True
    with Cons.prems show ?thesis by auto
  next
    case False
    show ?thesis
    proof (cases "Path (Mod S) = Path (Mod d)")
      case True
      from Cons.prems False True obtain d' rs' where
        sp: "samePath nv lt f S d = Inr d'" and sc: "scanRequire nv lt f S ds = (rs', found, None)"
        and rs: "rs = d' # rs'"
        by (auto split: sum.splits prod.splits)
      from Cons.IH [OF sc] obtain found' where
        again: "scanRequire nv lt f S rs' = (rs', found', None)" "found \<longrightarrow> found'" by blast
      show ?thesis
      proof (cases "String_eq (Mod S) (Mod d')")
        case True
        then show ?thesis using rs by auto
      next
        case ne: False
        from samePath_Inr [OF sp] ne True have "d' = d"
          by (auto simp: String_eq_def)
        with sp again rs False True show ?thesis by simp
      qed
    next
      case ne: False
      from Cons.prems False ne obtain rs' where
        sc: "scanRequire nv lt f S ds = (rs', found, None)" and rs: "rs = d # rs'"
        by (auto split: prod.splits)
      from Cons.IH [OF sc] obtain found' where
        "scanRequire nv lt f S rs' = (rs', found', None)" "found \<longrightarrow> found'" by blast
      with rs False ne show ?thesis by simp
    qed
  qed
qed

text \<open>A scan that changes nothing finds the source entry once it is appended.\<close>

lemma scanRequire_snoc_self:
  "scanRequire nv lt f S rs = (rs, found, None) \<Longrightarrow>
   scanRequire nv lt f S (rs @ [S]) = (rs @ [S], True, None)"
proof (induction rs arbitrary: found)
  case Nil
  then show ?case by (simp add: String_eq_def)
next
  case (Cons d rs)
  show ?case
  proof (cases "String_eq (Mod S) (Mod d)")
    case True
    then show ?thesis by simp
  next
    case False
    with Cons.prems have "scanRequire nv lt f S rs = (rs, found, None)"
      by (auto split: if_splits sum.splits prod.splits)
    from Cons.IH [OF this] Cons.prems False show ?thesis
      by (auto split: if_splits sum.splits prod.splits)
  qed
qed

lemma requireEntry_idem:
  assumes "requireEntry nv lt f S d = (d1, None)"
  shows "requireEntry nv lt f S d1 = (d1, None)"
proof -
  obtain rs found where sc: "scanRequire nv lt f S (Require d) = (rs, found, None)"
    using assms by (auto simp: requireEntry_def split: prod.splits option.splits)
  from scanRequire_again [OF sc] obtain found' where
    again: "scanRequire nv lt f S rs = (rs, found', None)" "found \<longrightarrow> found'" by blast
  show ?thesis
  proof (cases found)
    case True
    with sc assms have "d1 = d\<lparr>Require := rs\<rparr>" by (simp add: requireEntry_def)
    with again True show ?thesis by (simp add: requireEntry_def)
  next
    case False
    with sc assms have "d1 = d\<lparr>Require := rs @ [S]\<rparr>"
      by (simp add: requireEntry_def AddNewRequire_eq)
    with scanRequire_snoc_self [OF again(1)] show ?thesis by (simp add: requireEntry_def)
  qed
qed

text \<open>
  The pass has nothing left to do for a source entry when the scan stops at an exact
  match and has changed nothing on its way.
\<close>

lemma requireEntry_stable_iff:
  "requireEntry nv lt f S d = (d, None) \<longleftrightarrow>
   scanRequire nv lt f S (Require d) = (Require d, True, None)"
proof
  assume st: "requireEntry nv lt f S d = (d, None)"
  obtain rs found where sc: "scanRequire nv lt f S (Require d) = (rs, found, None)"
    using st by (auto simp: requireEntry_def split: prod.splits option.splits)
  have len: "length rs = length (Require d)"
    using scanRequire_length [of nv lt f S "Require d"] sc by simp
  show "scanRequire nv lt f S (Require d) = (Require d, True, None)"
  proof (cases found)
    case True
    with sc st have "d\<lparr>Require := rs\<rparr> = d" by (simp add: requireEntry_def)
    then have "Require (d\<lparr>Require := rs\<rparr>) = Require d" by simp
    with sc True show ?thesis by simp
  next
    case False
    with sc st have "d\<lparr>Require := rs @ [S]\<rparr> = d" by (simp add: requireEntry_def AddNewRequire_eq)
    then have "Require (d\<lparr>Require := rs @ [S]\<rparr>) = Require d" by simp
    then have "rs @ [S] = Require d" by simp
    then have "length (rs @ [S]) = length (Require d)" by (rule arg_cong)
    with len show ?thesis by simp
  qed
next
  assume "scanRequire nv lt f S (Require d) = (Require d, True, None)"
  then show "requireEntry nv lt f S d = (d, None)" by (simp add: requireEntry_def)
qed

lemma scanRequire_stable_append:
  "scanRequire nv lt f S ds = (ds, True, None) \<Longrightarrow>
   scanRequire nv lt f S (ds @ xs) = (ds @ xs, True, None)"
proof (induction ds)
  case Nil
  then show ?case by simp
next
  case (Cons d ds)
  show ?case
  proof (cases "String_eq (Mod S) (Mod d)")
    case True
    then show ?thesis by simp
  next
    case False
    with Cons.prems have "scanRequire nv lt f S ds = (ds, True, None)"
      by (auto split: if_splits sum.splits prod.splits)
    from Cons.IH [OF this] Cons.prems False show ?thesis
      by (auto split: if_splits sum.splits prod.splits)
  qed
qed

lemma scanRequire_stable_other:
  assumes "Path (Mod S') \<noteq> Path (Mod S)"
  shows "scanRequire nv lt f S ds = (ds, True, None) \<Longrightarrow>
         scanRequire nv lt f S (fst (scanRequire nv lt f S' ds)) =
           (fst (scanRequire nv lt f S' ds), True, None)"
proof (induction ds)
  case Nil
  then show ?case by simp
next
  case (Cons d ds)
  show ?case
  proof (cases "Path (Mod d) = Path (Mod S)")
    case True
    with assms have keep: "fst (scanRequire nv lt f S' (d # ds)) = d # fst (scanRequire nv lt f S' ds)"
      by (auto simp: String_eq_def split: prod.splits)
    show ?thesis
    proof (cases "String_eq (Mod S) (Mod d)")
      case True
      then show ?thesis unfolding keep by simp
    next
      case False
      with Cons.prems True have sp: "samePath nv lt f S d = Inr d"
        and "scanRequire nv lt f S ds = (ds, True, None)"
        by (auto split: if_splits sum.splits prod.splits)
      from Cons.IH [OF this(2)] sp False True show ?thesis
        unfolding keep by simp
    qed
  next
    case False
    with Cons.prems have rest: "scanRequire nv lt f S ds = (ds, True, None)"
      by (auto simp: String_eq_def split: if_splits sum.splits prod.splits)
    note IH = Cons.IH [OF rest]
    have skip: "scanRequire nv lt f S (x # xs) =
        (case scanRequire nv lt f S xs of (rest', found, err) \<Rightarrow> (x # rest', found, err))"
      if "Path (Mod x) = Path (Mod d)" for x xs
      using that False by (auto simp: String_eq_def)
    show ?thesis
    proof (cases "String_eq (Mod S') (Mod d)")
      case True
      then have "fst (scanRequire nv lt f S' (d # ds)) = d # ds" by simp
      with Cons.prems show ?thesis by simp
    next
      case ne: False
      show ?thesis
      proof (cases "Path (Mod S') = Path (Mod d)")
        case True
        show ?thesis
        proof (cases "samePath nv lt f S' d")
          case (Inl e)
          with ne True have "fst (scanRequire nv lt f S' (d # ds)) = d # ds" by simp
          with Cons.prems show ?thesis by simp
        next
          case (Inr d')
          with ne True have eq: "fst (scanRequire nv lt f S' (d # ds)) = d' # fst (scanRequire nv lt f S' ds)"
            by (auto split: prod.splits)
          have "Path (Mod d') = Path (Mod d)" by (rule samePath_Path [OF Inr])
          from skip [OF this] IH show ?thesis unfolding eq by simp
        qed
      next
        case False
        with ne have eq: "fst (scanRequire nv lt f S' (d # ds)) = d # fst (scanRequire nv lt f S' ds)"
          by (auto split: prod.splits)
        from skip [of d] IH show ?thesis unfolding eq by simp
      qed
    qed
  qed
qed

lemma requireEntry_stable_other:
  assumes "Path (Mod S') \<noteq> Path (Mod S)"
    and "requireEntry nv lt f S d = (d, None)"
  shows "requireEntry nv lt f S (fst (requireEntry nv lt f S' d)) = (fst (requireEntry nv lt f S' d), None)"
proof -
  from assms(2) have st: "scanRequire nv lt f S (Require d) = (Require d, True, None)"
    by (simp add: requireEntry_stable_iff)
  obtain app where app: "Require (fst (requireEntry nv lt f S' d)) =
      fst (scanRequire nv lt f S' (Require d)) @ app"
    using requireEntry_Require [of nv lt f S' d] by blast
  have "scanRequire nv lt f S (fst (scanRequire nv lt f S' (Require d)) @ app) =
        (fst (scanRequire nv lt f S' (Require d)) @ app, True, None)"
    by (rule scanRequire_stable_append) (rule scanRequire_stable_other [OF assms(1) st])
  then show ?thesis
    by (simp add: requireEntry_stable_iff app)
qed

lemma requireLoop_stable_other:
  assumes "Path (Mod S) \<notin> (\<lambda>s. Path (Mod s)) ` set srcs"
    and "requireEntry nv lt f S d = (d, None)"
  shows "requireEntry nv lt f S (fst (requireLoop nv lt f srcs d)) = (fst (requireLoop nv lt f srcs d), None)"
  using assms
proof (induction srcs arbitrary: d)
  case Nil
  then show ?case by simp
next
  case (Cons S' srcs)
  let ?d1 = "fst (requireEntry nv lt f S' d)"
  have ne: "Path (Mod S') \<noteq> Path (Mod S)" using Cons.prems(1) by auto
  have one: "requireEntry nv lt f S ?d1 = (?d1, None)"
    by (rule requireEntry_stable_other [OF ne Cons.prems(2)])
  have "Path (Mod S) \<notin> (\<lambda>s. Path (Mod s)) ` set srcs" using Cons.prems(1) by auto
  from Cons.IH [OF this one] one show ?case
    by (auto split: prod.splits option.splits)
qed

text \<open>After a pass without error over distinct source paths, no source entry has anything left to do.\<close>

lemma requireLoop_all_stable:
  assumes "distinct (map (\<lambda>s. Path (Mod s)) srcs)"
    and "requireLoop nv lt f srcs d = (res, None)"
  shows "\<forall>S \<in> set srcs. requireEntry nv lt f S res = (res, None)"
  using assms
proof (induction srcs arbitrary: d)
  case Nil
  then show ?case by simp
next
  case (Cons S srcs)
  from Cons.prems(2) obtain d1 where st: "requireEntry nv lt f S d = (d1, None)"
    and rest: "requireLoop nv lt f srcs d1 = (res, None)"
    by (auto split: prod.splits option.splits)
  have "Path (Mod S) \<notin> (\<lambda>s. Path (Mod s)) ` set srcs" using Cons.prems(1) by auto
  from requireLoop_stable_other [OF this requireEntry_idem [OF st]] rest
  have "requireEntry nv lt f S res = (res, None)" by simp
  moreover have "\<forall>S \<in> set srcs. requireEntry nv lt f S res = (res, None)"
    using Cons.IH [OF _ rest] Cons.prems(1) by simp
  ultimately show ?case by simp
qed

lemma requireLoop_stable:
  "\<forall>S \<in> set srcs. requireEntry nv lt f S d = (d, None) \<Longrightarrow> requireLoop nv lt f srcs d = (d, None)"
  by (induction srcs) auto

lemma requireLoop_idem:
  assumes "distinct (map (\<lambda>s. Path (Mod s)) srcs)"
    and "requireLoop nv lt f srcs d = (res, None)"
  shows "requireLoop nv lt f srcs res = (res, None)"
  by (rule requireLoop_stable) (rule requireLoop_all_stable [OF assms])

lemma requireLoop_same_path:
  assumes "p \<notin> (\<lambda>s. Path (Mod s)) ` set srcs"
  shows "filter (\<lambda>d. Path (Mod d) = p) (Require (fst (requireLoop nv lt f srcs dest))) =
         filter (\<lambda>d. Path (Mod d) = p) (Require dest)"
proof -
  have "(\<lambda>s. Path (Mod s)) ` set srcs \<subseteq> - {p}" using assms by auto
  from requireLoop_filter [OF this, of nv lt f dest] show ?thesis by simp
qed

text \<open>
  The one source entry with its path, met by a destination that has that path not at
  all or in that very entry only, is in the result exactly once.
\<close>

lemma requireLoop_addition:
  assumes loop: "requireLoop nv lt f (rb @ R # ra) dst = (res, None)"
    and others: "\<forall>s \<in> set rb \<union> set ra. Path (Mod s) \<noteq> Path (Mod R)"
    and start: "filter (\<lambda>d. Path (Mod d) = Path (Mod R)) (Require dst) = [] \<or>
                filter (\<lambda>d. Path (Mod d) = Path (Mod R)) (Require dst) = [R]"
  shows "filter (\<lambda>d. Path (Mod d) = Path (Mod R)) (Require res) = [R]"
proof -
  let ?same = "\<lambda>d. Path (Mod d) = Path (Mod R)"
  obtain d1 where d1: "requireLoop nv lt f rb dst = (d1, None)"
    and rest: "requireLoop nv lt f (R # ra) d1 = (res, None)"
    using loop by (auto simp: requireLoop_append split: prod.splits option.splits)
  obtain d2 where d2: "requireEntry nv lt f R d1 = (d2, None)"
    and d3: "requireLoop nv lt f ra d2 = (res, None)"
    using rest by (auto split: prod.splits option.splits)
  have nb: "Path (Mod R) \<notin> (\<lambda>s. Path (Mod s)) ` set rb"
    and na: "Path (Mod R) \<notin> (\<lambda>s. Path (Mod s)) ` set ra"
    using others by auto
  have f1: "filter ?same (Require d1) = filter ?same (Require dst)"
    using requireLoop_same_path [OF nb, of nv lt f dst] d1 by simp
  have exact: "\<forall>d \<in> set (Require d1). Path (Mod d) = Path (Mod R) \<longrightarrow> Version (Mod d) = Version (Mod R)"
  proof (intro ballI impI)
    fix d assume d: "d \<in> set (Require d1)" "Path (Mod d) = Path (Mod R)"
    then have mem: "d \<in> set (filter ?same (Require d1))" by simp
    from start show "Version (Mod d) = Version (Mod R)"
    proof
      assume "filter ?same (Require dst) = []"
      with mem show ?thesis by (simp only: f1) simp
    next
      assume "filter ?same (Require dst) = [R]"
      with mem have "d \<in> set [R]" by (simp only: f1)
      then show ?thesis by simp
    qed
  qed
  have f2: "filter ?same (Require d2) = [R]"
  proof (cases "filter ?same (Require d1) = []")
    case True
    then have "Path (Mod R) \<notin> (\<lambda>d. Path (Mod d)) ` set (Require d1)"
      by (auto simp: filter_empty_conv)
    with requireEntry_exact [OF exact, of nv lt f] d2 True show ?thesis by auto
  next
    case False
    with f1 start have one: "filter ?same (Require d1) = [R]" by auto
    then have "R \<in> set (filter ?same (Require d1))" by simp
    then have "Path (Mod R) \<in> (\<lambda>d. Path (Mod d)) ` set (Require d1)" by auto
    with requireEntry_exact [OF exact, of nv lt f] d2 one show ?thesis by auto
  qed
  show ?thesis
    using requireLoop_same_path [OF na, of nv lt f d2] d3 f2 by simp
qed

text \<open>
  The directives of the result with a given old coordinate: the destination's, when it
  has any, and else the first source directive with that coordinate.
\<close>

lemma replaceLoop_filter_old:
  "filter (\<lambda>r. Old r = c) (Replace (fst (replaceLoop srcs dest))) =
     (if filter (\<lambda>r. Old r = c) (Replace dest) \<noteq> [] then filter (\<lambda>r. Old r = c) (Replace dest)
      else take 1 (filter (\<lambda>s. Old s = c) srcs))"
proof (induction srcs arbitrary: dest)
  case Nil
  then show ?case by simp
next
  case (Cons S srcs)
  show ?case
  proof (cases "Old S \<in> Old ` set (Replace dest)")
    case True
    then have "Old S = c \<Longrightarrow> filter (\<lambda>r. Old r = c) (Replace dest) \<noteq> []"
      by (auto simp: filter_empty_conv)
    with True show ?thesis
      unfolding replaceLoop_Cons by (auto simp: Cons.IH)
  next
    case False
    then have "Old S = c \<Longrightarrow> filter (\<lambda>r. Old r = c) (Replace dest) = []"
      by (force simp: filter_empty_conv image_iff)
    with False show ?thesis
      unfolding replaceLoop_Cons by (auto simp: Cons.IH)
  qed
qed

lemma replaceLoop_addition:
  assumes "\<forall>s \<in> set pb. Old s \<noteq> Old T"
    and "filter (\<lambda>r. Old r = Old T) (Replace dst) = [] \<or>
         filter (\<lambda>r. Old r = Old T) (Replace dst) = [T]"
  shows "filter (\<lambda>r. Old r = Old T) (Replace (fst (replaceLoop (pb @ T # pa) dst))) = [T]"
proof -
  have "filter (\<lambda>s. Old s = Old T) pb = []"
    using assms(1) by (auto simp: filter_empty_conv)
  then have "take 1 (filter (\<lambda>s. Old s = Old T) (pb @ T # pa)) = [T]" by simp
  with assms(2) show ?thesis
    by (auto simp: replaceLoop_filter_old)
qed

lemma filter_eq_distinct:
  "distinct xs \<Longrightarrow> x \<in> set xs \<Longrightarrow> filter (\<lambda>y. y = x) xs = [x]"
  by (induction xs) (auto simp: filter_empty_conv)

lemma excludeLoop_addition:
  assumes "E \<in> set srcs"
    and "filter (\<lambda>e. e = E) (Exclude dst) = [] \<or> filter (\<lambda>e. e = E) (Exclude dst) = [E]"
  shows "filter (\<lambda>e. e = E) (Exclude (excludeLoop srcs dst)) = [E]"
proof -
  from excludeLoop_Exclude [of srcs dst] obtain app where
    app: "Exclude (excludeLoop srcs dst) = Exclude dst @ app" "distinct app"
    "set app = set srcs - set (Exclude dst)" by blast
  show ?thesis
  proof (cases "E \<in> set (Exclude dst)")
    case True
    then have "filter (\<lambda>e. e = E) (Exclude dst) \<noteq> []" by (auto simp: filter_empty_conv)
    moreover from True app(3) have "filter (\<lambda>e. e = E) app = []" by (auto simp: filter_empty_conv)
    ultimately show ?thesis using assms(2) app(1) by auto
  next
    case False
    then have "filter (\<lambda>e. e = E) (Exclude dst) = []" by (auto simp: filter_empty_conv)
    moreover from False assms(1) app(3) have "E \<in> set app" by simp
    ultimately show ?thesis using app(1,2) by (simp add: filter_eq_distinct)
  qed
qed

text \<open>What is left to do for the directives and exclusions that the destination has.\<close>

lemma replaceLoop_covers:
  "Old ` set srcs \<subseteq> Old ` set (Replace (fst (replaceLoop srcs dest)))"
proof (induction srcs arbitrary: dest)
  case Nil
  then show ?case by simp
next
  case (Cons S srcs)
  let ?d1 = "if Old S \<in> Old ` set (Replace dest) then dest else dest\<lparr>Replace := Replace dest @ [S]\<rparr>"
  from replaceLoop_Replace [of srcs ?d1] obtain app where
    "Replace (fst (replaceLoop srcs ?d1)) = Replace ?d1 @ app" by blast
  then have "Old S \<in> Old ` set (Replace (fst (replaceLoop srcs ?d1)))" by auto
  with Cons.IH [of ?d1] show ?case
    unfolding replaceLoop_Cons by auto
qed

lemma replaceLoop_stable:
  "Old ` set srcs \<subseteq> Old ` set (Replace dest) \<Longrightarrow> replaceLoop srcs dest = (dest, None)"
proof (induction srcs)
  case Nil
  then show ?case by simp
next
  case (Cons S srcs)
  then show ?case unfolding replaceLoop_Cons by auto
qed

lemma excludeLoop_stable:
  "set srcs \<subseteq> set (Exclude dest) \<Longrightarrow> excludeLoop srcs dest = dest"
  by (induction srcs) (auto simp: scanExclude_iff)


lemma filter_none_or_one:
  assumes "filter P xs = [] \<or> filter P xs = [x]"
  shows "filter P (filter Q xs) = [] \<or> filter P (filter Q xs) = [x]"
proof -
  have c: "filter P (filter Q xs) = filter Q (filter P xs)"
    by (induction xs) auto
  from assms show ?thesis
  proof
    assume e: "filter P xs = []"
    have "filter P (filter Q xs) = filter Q []" unfolding c e ..
    then show ?thesis by (simp del: filter_filter)
  next
    assume e: "filter P xs = [x]"
    have "filter P (filter Q xs) = filter Q [x]" unfolding c e ..
    then show ?thesis by (cases "Q x") (simp_all del: filter_filter)
  qed
qed

lemma mergeRequires_addition:
  assumes "Module src = Some m"
    and "Require src = rb @ R # ra"
    and "\<forall>s \<in> set rb \<union> set ra. Path (Mod s) \<noteq> Path (Mod R)"
    and "mergeRequires nv lt d src f = (res, None)"
    and "filter (\<lambda>d. Path (Mod d) = Path (Mod R)) (Require d) = [] \<or>
         filter (\<lambda>d. Path (Mod d) = Path (Mod R)) (Require d) = [R]"
  shows "filter (\<lambda>d. Path (Mod d) = Path (Mod R)) (Require res) = [R]"
proof -
  let ?same = "\<lambda>d. Path (Mod d) = Path (Mod R)"
  let ?dst = "DropRequire (Path m) d"
  have start: "filter ?same (Require ?dst) = [] \<or> filter ?same (Require ?dst) = [R]"
    using filter_none_or_one [OF assms(5), of "\<lambda>r. Path (Mod r) \<noteq> Path m"]
    by (simp del: filter_filter add: DropRequire_def)
  have "requireLoop nv lt f (rb @ R # ra) ?dst = (res, None)"
    using assms(1,2,4) by (simp add: mergeRequires_def)
  from requireLoop_addition [OF this assms(3) start] show ?thesis .
qed

lemma mergeReplacements_addition:
  assumes "Module src = Some m"
    and "Replace src = pb @ T # pa"
    and "\<forall>s \<in> set pb. Old s \<noteq> Old T"
    and "filter (\<lambda>r. Old r = Old T) (Replace d) = [] \<or>
         filter (\<lambda>r. Old r = Old T) (Replace d) = [T]"
  shows "filter (\<lambda>r. Old r = Old T) (Replace (fst (mergeReplacements d src))) = [T]"
proof -
  let ?dst = "d\<lparr>Replace := filter (\<lambda>r. Path (Old r) \<noteq> Path m) (Replace d)\<rparr>"
  have "filter (\<lambda>r. Old r = Old T) (Replace ?dst) = [] \<or>
      filter (\<lambda>r. Old r = Old T) (Replace ?dst) = [T]"
    using filter_none_or_one [OF assms(4), of "\<lambda>r. Path (Old r) \<noteq> Path m"]
    by (simp del: filter_filter)
  from replaceLoop_addition [OF assms(3) this, of pa] show ?thesis
    by (simp add: mergeReplacements_eq [OF assms(1)] assms(2))
qed

lemma mergeExcludes_addition:
  assumes "E \<in> set (Exclude src)"
    and "filter (\<lambda>e. e = E) (Exclude d) = [] \<or> filter (\<lambda>e. e = E) (Exclude d) = [E]"
  shows "filter (\<lambda>e. e = E) (Exclude (fst (mergeExcludes d src))) = [E]"
  using excludeLoop_addition [OF assms] by (simp add: mergeExcludes_def)

lemma run_idem:
  assumes m: "Module src = Some m"
    and run: "run nv lt dest src f = (res, None)"
    and dist: "distinct (map (\<lambda>s. Path (Mod s)) (Require src))"
    and self1: "Path m \<notin> (\<lambda>s. Path (Mod s)) ` set (Require src)"
    and self2: "Path m \<notin> (\<lambda>s. Path (Old s)) ` set (Replace src)"
  shows "run nv lt res src f = (res, None)"
proof -
  from run_passes [OF run] obtain d1 d2 where
    p1: "mergeRequires nv lt dest src f = (d1, None)" and
    p2: "mergeReplacements d1 src = (d2, None)" and
    p3: "mergeExcludes d2 src = (res, None)" by blast
  have req: "Require res = Require d1"
    using mergeReplacements_rest [of d1 src] p2 excludeLoop_rest [of "Exclude src" d2] p3
    by (simp add: mergeExcludes_def)
  have rep: "Replace res = Replace d2"
    using excludeLoop_rest [of "Exclude src" d2] p3 by (simp add: mergeExcludes_def)
  let ?dst = "DropRequire (Path m) dest"
  have loop1: "requireLoop nv lt f (Require src) ?dst = (d1, None)"
    using p1 m by (simp add: mergeRequires_def)
  have "(\<lambda>r. Path (Mod r)) ` set (Require d1) \<subseteq>
        (\<lambda>r. Path (Mod r)) ` set (Require ?dst) \<union> (\<lambda>r. Path (Mod r)) ` set (Require src)"
    using requireLoop_paths [of nv lt f "Require src" ?dst] loop1 by simp
  moreover have "Path m \<notin> (\<lambda>r. Path (Mod r)) ` set (Require ?dst)"
    by (auto simp: DropRequire_def)
  ultimately have "Path m \<notin> (\<lambda>r. Path (Mod r)) ` set (Require res)"
    unfolding req using self1 by blast
  then have "filter (\<lambda>r. Path (Mod r) \<noteq> Path m) (Require res) = Require res"
    by (force simp: filter_id_conv image_iff)
  then have drop: "DropRequire (Path m) res = res"
    by (simp add: DropRequire_def)
  have "\<forall>S \<in> set (Require src). requireEntry nv lt f S res = (res, None)"
  proof
    fix S assume "S \<in> set (Require src)"
    with requireLoop_all_stable [OF dist loop1] have "requireEntry nv lt f S d1 = (d1, None)"
      by blast
    then show "requireEntry nv lt f S res = (res, None)"
      by (simp add: requireEntry_stable_iff req)
  qed
  then have "requireLoop nv lt f (Require src) res = (res, None)"
    by (rule requireLoop_stable)
  then have q1: "mergeRequires nv lt res src f = (res, None)"
    using m drop by (simp add: mergeRequires_def)
  let ?d1 = "d1\<lparr>Replace := filter (\<lambda>r. Path (Old r) \<noteq> Path m) (Replace d1)\<rparr>"
  have d2: "d2 = fst (replaceLoop (Replace src) ?d1)"
    using p2 by (simp add: mergeReplacements_eq [OF m])
  have "(\<lambda>r. Path (Old r)) ` set (Replace d2) \<subseteq>
        (\<lambda>r. Path (Old r)) ` set (Replace ?d1) \<union> (\<lambda>r. Path (Old r)) ` set (Replace src)"
    unfolding d2 by (rule replaceLoop_old_paths)
  moreover have "Path m \<notin> (\<lambda>r. Path (Old r)) ` set (Replace ?d1)" by auto
  ultimately have "Path m \<notin> (\<lambda>r. Path (Old r)) ` set (Replace res)"
    unfolding rep using self2 by blast
  then have "filter (\<lambda>r. Path (Old r) \<noteq> Path m) (Replace res) = Replace res"
    by (force simp: filter_id_conv image_iff)
  then have keep: "res\<lparr>Replace := filter (\<lambda>r. Path (Old r) \<noteq> Path m) (Replace res)\<rparr> = res"
    by simp
  have "Old ` set (Replace src) \<subseteq> Old ` set (Replace res)"
    unfolding rep d2 by (rule replaceLoop_covers)
  then have "replaceLoop (Replace src) res = (res, None)"
    by (rule replaceLoop_stable)
  then have q2: "mergeReplacements res src = (res, None)"
    by (simp add: mergeReplacements_eq [OF m] keep)
  from excludeLoop_Exclude [of "Exclude src" d2] obtain app where
    "Exclude (excludeLoop (Exclude src) d2) = Exclude d2 @ app"
    "set app = set (Exclude src) - set (Exclude d2)" by blast
  then have "set (Exclude src) \<subseteq> set (Exclude res)"
    using p3 by (auto simp: mergeExcludes_def)
  then have q3: "mergeExcludes res src = (res, None)"
    by (simp add: mergeExcludes_def excludeLoop_stable)
  from q1 q2 q3 show ?thesis by (simp add: run_def)
qed


text \<open>
  The three passes have returned no error and left \<open>res\<close>.
  A source requirement \<open>R\<close> whose path no destination requirement has, and which is
  the one source requirement with its path, is the one requirement of \<open>res\<close> with
  that path; and it still is after a second run on \<open>res\<close> and the same source that
  returns no error. The same holds of a source replace directive \<open>T\<close> whose old path
  no destination directive has (\<open>T\<close> being the first source directive with its old
  coordinate), and of a source exclusion \<open>E\<close> whose path no destination exclusion has.
  When the source has no two requirements with the same path and neither requires nor
  replaces its own module path, the second run returns \<open>res\<close> itself and no error.
\<close>

lemma run_addition:
  assumes "Module src = Some m"
    and "run nv lt dest src forceOverwrite = (res, None)"
  shows "(Require src = rb @ R # ra \<and> (\<forall>s \<in> set rb \<union> set ra. Path (Mod s) \<noteq> Path (Mod R)) \<and>
          Path (Mod R) \<notin> (\<lambda>d. Path (Mod d)) ` set (Require dest) \<longrightarrow>
            filter (\<lambda>d. Path (Mod d) = Path (Mod R)) (Require res) = [R] \<and>
            (\<forall>res2. run nv lt res src forceOverwrite = (res2, None) \<longrightarrow>
               filter (\<lambda>d. Path (Mod d) = Path (Mod R)) (Require res2) = [R])) \<and>
         (Replace src = pb @ T # pa \<and> (\<forall>s \<in> set pb. Old s \<noteq> Old T) \<and>
          Path (Old T) \<notin> (\<lambda>d. Path (Old d)) ` set (Replace dest) \<longrightarrow>
            filter (\<lambda>d. Old d = Old T) (Replace res) = [T] \<and>
            (\<forall>res2. run nv lt res src forceOverwrite = (res2, None) \<longrightarrow>
               filter (\<lambda>d. Old d = Old T) (Replace res2) = [T])) \<and>
         (E \<in> set (Exclude src) \<and>
          Path (Exclude.Mod E) \<notin> (\<lambda>d. Path (Exclude.Mod d)) ` set (Exclude dest) \<longrightarrow>
            filter (\<lambda>d. d = E) (Exclude res) = [E] \<and>
            (\<forall>res2. run nv lt res src forceOverwrite = (res2, None) \<longrightarrow>
               filter (\<lambda>d. d = E) (Exclude res2) = [E])) \<and>
         (distinct (map (\<lambda>s. Path (Mod s)) (Require src)) \<and>
          Path m \<notin> (\<lambda>s. Path (Mod s)) ` set (Require src) \<and>
          Path m \<notin> (\<lambda>s. Path (Old s)) ` set (Replace src) \<longrightarrow>
            run nv lt res src forceOverwrite = (res, None))"
proof (intro conjI impI allI)
  assume a: "Require src = rb @ R # ra \<and> (\<forall>s \<in> set rb \<union> set ra. Path (Mod s) \<noteq> Path (Mod R)) \<and>
          Path (Mod R) \<notin> (\<lambda>d. Path (Mod d)) ` set (Require dest)"
  then have start: "filter (\<lambda>d. Path (Mod d) = Path (Mod R)) (Require dest) = [] \<or>
      filter (\<lambda>d. Path (Mod d) = Path (Mod R)) (Require dest) = [R]"
    by (force simp: filter_empty_conv image_iff)
  from run_sections [OF assms(2)] have
    "mergeRequires nv lt dest src forceOverwrite = (fst (mergeRequires nv lt dest src forceOverwrite), None)"
    "Require res = Require (fst (mergeRequires nv lt dest src forceOverwrite))" by blast+
  with mergeRequires_addition [OF assms(1) _ _ _ start, of rb ra nv lt] a
  show first: "filter (\<lambda>d. Path (Mod d) = Path (Mod R)) (Require res) = [R]" by simp
  fix res2 assume "run nv lt res src forceOverwrite = (res2, None)"
  from run_sections [OF this] have
    "mergeRequires nv lt res src forceOverwrite = (fst (mergeRequires nv lt res src forceOverwrite), None)"
    "Require res2 = Require (fst (mergeRequires nv lt res src forceOverwrite))" by blast+
  with mergeRequires_addition [OF assms(1) _ _ _ disjI2 [OF first], of rb ra nv lt] a
  show "filter (\<lambda>d. Path (Mod d) = Path (Mod R)) (Require res2) = [R]" by simp
next
  assume a: "Replace src = pb @ T # pa \<and> (\<forall>s \<in> set pb. Old s \<noteq> Old T) \<and>
          Path (Old T) \<notin> (\<lambda>d. Path (Old d)) ` set (Replace dest)"
  from run_sections [OF assms(2)] obtain d1 where
    d1: "Replace d1 = Replace dest" "Replace res = Replace (fst (mergeReplacements d1 src))" by blast
  from a d1(1) have "filter (\<lambda>r. Old r = Old T) (Replace d1) = [] \<or>
      filter (\<lambda>r. Old r = Old T) (Replace d1) = [T]"
    by (force simp: filter_empty_conv image_iff)
  from mergeReplacements_addition [OF assms(1) _ _ this, of pb pa] a d1(2)
  show first: "filter (\<lambda>d. Old d = Old T) (Replace res) = [T]" by simp
  fix res2 assume "run nv lt res src forceOverwrite = (res2, None)"
  from run_sections [OF this] obtain d1' where
    d1': "Replace d1' = Replace res" "Replace res2 = Replace (fst (mergeReplacements d1' src))" by blast
  from first d1'(1) have "filter (\<lambda>r. Old r = Old T) (Replace d1') = [] \<or>
      filter (\<lambda>r. Old r = Old T) (Replace d1') = [T]" by simp
  from mergeReplacements_addition [OF assms(1) _ _ this, of pb pa] a d1'(2)
  show "filter (\<lambda>d. Old d = Old T) (Replace res2) = [T]" by simp
next
  assume a: "E \<in> set (Exclude src) \<and>
          Path (Exclude.Mod E) \<notin> (\<lambda>d. Path (Exclude.Mod d)) ` set (Exclude dest)"
  from run_sections [OF assms(2)] obtain d2 where
    d2: "Exclude d2 = Exclude dest" "Exclude res = Exclude (fst (mergeExcludes d2 src))" by blast
  from a d2(1) have "filter (\<lambda>e. e = E) (Exclude d2) = [] \<or> filter (\<lambda>e. e = E) (Exclude d2) = [E]"
    by (force simp: filter_empty_conv image_iff)
  from mergeExcludes_addition [OF _ this, of src] a d2(2)
  show first: "filter (\<lambda>d. d = E) (Exclude res) = [E]" by simp
  fix res2 assume "run nv lt res src forceOverwrite = (res2, None)"
  from run_sections [OF this] obtain d2' where
    d2': "Exclude d2' = Exclude res" "Exclude res2 = Exclude (fst (mergeExcludes d2' src))" by blast
  from first d2'(1) have "filter (\<lambda>e. e = E) (Exclude d2') = [] \<or> filter (\<lambda>e. e = E) (Exclude d2') = [E]"
    by simp
  from mergeExcludes_addition [OF _ this, of src] a d2'(2)
  show "filter (\<lambda>d. d = E) (Exclude res2) = [E]" by simp
next
  assume "distinct (map (\<lambda>s. Path (Mod s)) (Require src)) \<and>
          Path m \<notin> (\<lambda>s. Path (Mod s)) ` set (Require src) \<and>
          Path m \<notin> (\<lambda>s. Path (Old s)) ` set (Replace src)"
  with run_idem [OF assms] show "run nv lt res src forceOverwrite = (res, None)" by blast
qed

text \<open>
  A source that requires itself beside a module that the destination lacks: the second
  run drops the requirement on the source module and line 134 adds it again, behind
  the others.
\<close>

lemma run_self_requirement_again:
  "run semver_NewVersion semver_LessThan
     (manifest ''dest'' [] [] [])
     (manifest ''src'' [req ''src'' ''v1.0.0'' False, req ''x'' ''v1.0.0'' False] [] []) False =
   (manifest ''dest'' [req ''src'' ''v1.0.0'' False, req ''x'' ''v1.0.0'' False] [] [], None) \<and>
   run semver_NewVersion semver_LessThan
     (manifest ''dest'' [req ''src'' ''v1.0.0'' False, req ''x'' ''v1.0.0'' False] [] [])
     (manifest ''src'' [req ''src'' ''v1.0.0'' False, req ''x'' ''v1.0.0'' False] [] []) False =
   (manifest ''dest'' [req ''x'' ''v1.0.0'' False, req ''src'' ''v1.0.0'' False] [] [], None)"
  by (simp add: eval_defs)

text \<open>
  C9. The destination has no requirement and the source lists the path \<^verbatim>\<open>p\<close> twice,
  with \<^verbatim>\<open>v1.2.0\<close> and with \<^verbatim>\<open>v1.1.0\<close>: the claim adds one entry for a source entry
  whose path the destination lacks, and changes nothing in a second run. The first run
  leaves two requirements \<^verbatim>\<open>p v1.1.0\<close> and the second run, on that result and the same
  source, three requirements with the path: line 134 appends after line 121 has
  rewritten an entry, \<^verbatim>\<open>found\<close> being set at line 99 only (as in C2).
\<close>

theorem run_duplicate_source_path:
  "run semver_NewVersion semver_LessThan
     (manifest ''dest'' [] [] [])
     (manifest ''src'' [req ''p'' ''v1.2.0'' False, req ''p'' ''v1.1.0'' False] [] []) False =
   (manifest ''dest'' [req ''p'' ''v1.1.0'' False, req ''p'' ''v1.1.0'' False] [] [], None) \<and>
   run semver_NewVersion semver_LessThan
     (manifest ''dest'' [req ''p'' ''v1.1.0'' False, req ''p'' ''v1.1.0'' False] [] [])
     (manifest ''src'' [req ''p'' ''v1.2.0'' False, req ''p'' ''v1.1.0'' False] [] []) False =
   (manifest ''dest'' [req ''p'' ''v1.1.0'' False, req ''p'' ''v1.1.0'' False,
      req ''p'' ''v1.2.0'' False] [] [], None)"
  by (simp add: eval_defs)

end
